theory Spec2Isabelle
  imports Complex_Main "HOL-Library.AList"
begin

section \<open>Python values and exceptions\<close>

text \<open>
  The exceptions that \<^verbatim>\<open>iss/error_model.py\<close> and the library calls it makes
  (Biopython's sequence objects, numpy's random generator) can raise. The module defines
  no exception class of its own.
\<close>

datatype error =
    KeyError
  | IndexError
  | ValueError
  | TypeError
  | AttributeError
  | UnboundLocalError
  | OverflowError

text \<open>
  Python's \<^verbatim>\<open>round(x)\<close> on a float rounds to the nearest integer, a tie going to the
  even neighbour. Floats are modelled as exact reals throughout: IEEE-754 rounding of the
  intermediate results is outside this embedding.
\<close>

definition py_round :: "real \<Rightarrow> int" where
  "py_round x =
     (let f = \<lfloor>x\<rfloor>; r = x - of_int f
      in if r < 1 / 2 then f
         else if 1 / 2 < r then f + 1
         else if even f then f else f + 1)"

section \<open>Probability conversion\<close>

text \<open>
  \<^verbatim>\<open>
  def phred_to_prob(q):
      p = 10 ** (-q / 10)
      return 1 - p
  \<close>
\<close>

definition phred_to_prob :: "real \<Rightarrow> real" where
  "phred_to_prob q = (let p = 10 powr (- q / 10) in 1 - p)"

text \<open>
  \<^verbatim>\<open>
  def prob_to_phred(p):
      q = int(round(-10 * np.log10(1 - p)))
      return q
  \<close>
  \<^verbatim>\<open>np.log10\<close> of zero is \<open>-inf\<close> and of a negative number \<open>nan\<close> (numpy warns and
  goes on); \<^verbatim>\<open>int(round(inf))\<close> then raises OverflowError and \<^verbatim>\<open>int(round(nan))\<close>
  ValueError.
\<close>

definition prob_to_phred :: "real \<Rightarrow> error + int" where
  "prob_to_phred p =
     (let x = 1 - p
      in if 0 < x then Inr (py_round (- 10 * log 10 x))
         else if x = 0 then Inl OverflowError
         else Inl ValueError)"

subsection \<open>Rounding to binary64\<close>

text \<open>
  The interpreter computes the two conversions on binary64 floats: every arithmetic operation
  returns its exact result rounded to the nearest binary64 number, a tie going to the number
  with an even significand. Where a property depends on this rounding, the rounded
  evaluation below is used next to the exact one above; the error models call the rounded
  \<open>phred_to_prob\<close>, so that their test \<^verbatim>\<open>random.random() > phred_to_prob(qual)\<close> compares
  the two floats the code compares. \<open>binary64 x\<close> is the rounding of a
  real \<open>x\<close> in the normal range (overflow and subnormal numbers are left out): the
  binary64 numbers between \<open>2 ^ e\<close> and \<open>2 ^ (e + 1)\<close> are the multiples of
  \<open>2 ^ (e - 52)\<close>. The power \<^verbatim>\<open>10 ** x\<close> is the C library's \<open>pow\<close>, which is not specified
  to the last bit, so it is a parameter.
\<close>

definition binary64 :: "real \<Rightarrow> real" where
  "binary64 x =
     (if x = 0 then 0
      else (let e = \<lfloor>log 2 \<bar>x\<bar>\<rfloor>; ulp = 2 powr (of_int e - 52)
            in ulp * of_int (py_round (x / ulp))))"

definition phred_to_prob_binary64 :: "(real \<Rightarrow> real \<Rightarrow> real) \<Rightarrow> real \<Rightarrow> real" where
  "phred_to_prob_binary64 pow q =
     (let p = pow 10 (binary64 (- q / 10)) in binary64 (1 - p))"

text \<open>
  \<open>prob_to_phred\<close> evaluated the same way; \<^verbatim>\<open>np.log10\<close> is the C library's \<open>log10\<close>
  and a parameter as well. \<^verbatim>\<open>round\<close> takes the rounded product.
\<close>

definition prob_to_phred_binary64 :: "(real \<Rightarrow> real) \<Rightarrow> real \<Rightarrow> error + int" where
  "prob_to_phred_binary64 log10 p =
     (let x = binary64 (1 - p)
      in if 0 < x then Inr (py_round (binary64 (- 10 * log10 x)))
         else if x = 0 then Inl OverflowError
         else Inl ValueError)"

section \<open>Objects, the heap and the random sources\<close>

text \<open>
  Biopython's \<^verbatim>\<open>Seq\<close> is immutable, \<^verbatim>\<open>MutableSeq\<close> can be written by index, and
  \<^verbatim>\<open>SeqRecord.letter_annotations\<close> is a dictionary that only accepts values whose
  length is the length of the record's sequence (it raises TypeError otherwise). Objects
  live in a heap, a list indexed by address; a new object is appended.
\<close>

type_synonym addr = nat

datatype pyobj =
    Seq string
  | MutableSeq string
  | RestrictedDict nat "(string \<times> int list) list"

record SeqRecord =
  seq :: addr
  letter_annotations :: addr

text \<open>
  The world a call runs in: the heap, what was printed, and the two global random
  generators the module draws from (Python's \<^verbatim>\<open>random\<close> and numpy's \<^verbatim>\<open>np.random\<close>).
  A generator is the infinite sequence of its future outputs and a position in it. A uniform
  output is a 53-bit integer, read as a float in \<open>[0, 1)\<close> by dividing by \<open>2 ^ 53\<close>;
  numpy's generator also yields standard normal deviates.
  \<open>libm_pow\<close> is the C library's \<open>pow\<close>, which the interpreter calls for \<^verbatim>\<open>10 ** x\<close>; it
  is fixed for a run and differs between platforms in the last bit.
\<close>

record world =
  heap :: "pyobj list"
  stdout :: "string list"
  py_bits :: "nat \<Rightarrow> nat"
  py_pos :: nat
  np_bits :: "nat \<Rightarrow> nat"
  np_gauss :: "nat \<Rightarrow> real"
  np_pos :: nat
  libm_pow :: "real \<Rightarrow> real \<Rightarrow> real"

type_synonym 'a result = "(error + 'a) \<times> world"

definition deref :: "world \<Rightarrow> addr \<Rightarrow> pyobj option" where
  "deref w a = (if a < length (heap w) then Some (heap w ! a) else None)"

definition alloc :: "pyobj \<Rightarrow> world \<Rightarrow> addr \<times> world" where
  "alloc ob w = (length (heap w), w\<lparr>heap := heap w @ [ob]\<rparr>)"

definition store :: "addr \<Rightarrow> pyobj \<Rightarrow> world \<Rightarrow> world" where
  "store a ob w = w\<lparr>heap := (heap w)[a := ob]\<rparr>"

definition py_print :: "string \<Rightarrow> world \<Rightarrow> world" where
  "py_print msg w = w\<lparr>stdout := stdout w @ [msg]\<rparr>"

definition unit_float :: "nat \<Rightarrow> real" where
  "unit_float k = real (k mod 2 ^ 53) / 2 ^ 53"

text \<open>\<^verbatim>\<open>random.random()\<close>\<close>

definition random_random :: "world \<Rightarrow> real \<times> world" where
  "random_random w = (unit_float (py_bits w (py_pos w)), w\<lparr>py_pos := py_pos w + 1\<rparr>)"

text \<open>
  \<^verbatim>\<open>random.choice(seq)\<close>: the element at a random index below \<^verbatim>\<open>len(seq)\<close>; IndexError
  on an empty sequence.
\<close>

definition random_choice :: "'a list \<Rightarrow> world \<Rightarrow> 'a result" where
  "random_choice xs w =
     (if xs = [] then (Inl IndexError, w)
      else (Inr (xs ! (py_bits w (py_pos w) mod length xs)), w\<lparr>py_pos := py_pos w + 1\<rparr>))"

text \<open>
  \<^verbatim>\<open>np.random.normal(loc, scale, size)\<close>: \<open>size\<close> samples, each \<open>loc + scale * g\<close> for
  the generator's next standard normal deviate \<open>g\<close>.
\<close>

definition np_random_normal :: "real \<Rightarrow> real \<Rightarrow> nat \<Rightarrow> world \<Rightarrow> real list \<times> world" where
  "np_random_normal loc scale n w =
     (map (\<lambda>i. loc + scale * np_gauss w (np_pos w + i)) [0..<n], w\<lparr>np_pos := np_pos w + n\<rparr>)"

text \<open>
  numpy's floats: dividing by zero is no exception (numpy warns and goes on), the
  quotient is \<open>nan\<close> for \<open>0 / 0\<close> and an infinity otherwise.
\<close>

datatype npfloat = Finite real | NaN | PosInf | NegInf

definition np_div :: "real \<Rightarrow> real \<Rightarrow> npfloat" where
  "np_div x y =
     (if y \<noteq> 0 then Finite (x / y)
      else if x = 0 then NaN
      else if 0 < x then PosInf else NegInf)"

fun is_finite :: "npfloat \<Rightarrow> bool" where
  "is_finite (Finite x) = True"
| "is_finite _ = False"

fun float_val :: "npfloat \<Rightarrow> real" where
  "float_val (Finite x) = x"
| "float_val _ = 0"

fun cumsum :: "real \<Rightarrow> real list \<Rightarrow> real list" where
  "cumsum acc [] = []"
| "cumsum acc (x # xs) = (acc + x) # cumsum (acc + x) xs"

text \<open>
  \<^verbatim>\<open>np.random.choice(a, p=p)\<close> for one sample. numpy first validates: \<open>a\<close> must not be
  empty, \<open>a\<close> and \<open>p\<close> must have the same size, \<open>p\<close> must hold no \<open>nan\<close>, no negative
  entry, and must sum to 1; each failure is a ValueError (an infinite entry fails one of
  the last two tests). It then draws one uniform float \<open>u\<close> and returns
  \<^verbatim>\<open>a[cdf.searchsorted(u, side='right')]\<close> for the cumulative sums \<open>cdf\<close> of \<open>p\<close>, that is,
  the element whose index is the number of cumulative sums that are at most \<open>u\<close>.
  (numpy accepts a sum within \<open>1.5e-8\<close> of 1; with exact reals the test is equality.)
\<close>

definition np_random_choice :: "'a list \<Rightarrow> npfloat list \<Rightarrow> world \<Rightarrow> 'a result" where
  "np_random_choice a p w =
     (if a = [] then (Inl ValueError, w)
      else if length p \<noteq> length a then (Inl ValueError, w)
      else if \<not> list_all is_finite p then (Inl ValueError, w)
      else if list_ex (\<lambda>x. float_val x < 0) p then (Inl ValueError, w)
      else if sum_list (map float_val p) \<noteq> 1 then (Inl ValueError, w)
      else
        (let u = unit_float (np_bits w (np_pos w));
             w' = w\<lparr>np_pos := np_pos w + 1\<rparr>;
             idx = length (filter (\<lambda>c. c \<le> u) (cumsum 0 (map float_val p)))
         in if idx < length a then (Inr (a ! idx), w') else (Inl IndexError, w')))"

text \<open>Python's slice \<^verbatim>\<open>xs[i:j]\<close> for \<open>0 \<le> i \<le> j\<close>; \<^verbatim>\<open>xs[i:]\<close> is \<open>drop i xs\<close>.\<close>

definition slice :: "nat \<Rightarrow> nat \<Rightarrow> 'a list \<Rightarrow> 'a list" where
  "slice i j xs = take (j - i) (drop i xs)"

text \<open>
  \<^verbatim>\<open>record.seq.tomutable()\<close>: a new \<^verbatim>\<open>MutableSeq\<close> holding a copy of the letters
  (only \<^verbatim>\<open>Seq\<close> has the method); \<^verbatim>\<open>mutable_seq.toseq()\<close>: a new \<^verbatim>\<open>Seq\<close> holding a copy.
\<close>

definition tomutable :: "addr \<Rightarrow> world \<Rightarrow> addr result" where
  "tomutable a w =
     (case deref w a of
        Some (Seq s) \<Rightarrow> (let (m, w') = alloc (MutableSeq s) w in (Inr m, w'))
      | _ \<Rightarrow> (Inl AttributeError, w))"

definition toseq :: "addr \<Rightarrow> world \<Rightarrow> addr result" where
  "toseq m w =
     (case deref w m of
        Some (MutableSeq s) \<Rightarrow> (let (r, w') = alloc (Seq s) w in (Inr r, w'))
      | _ \<Rightarrow> (Inl AttributeError, w))"

text \<open>\<^verbatim>\<open>record.letter_annotations[key]\<close>, read and written.\<close>

definition annotations_getitem :: "addr \<Rightarrow> string \<Rightarrow> world \<Rightarrow> (int list) result" where
  "annotations_getitem a k w =
     (case deref w a of
        Some (RestrictedDict n al) \<Rightarrow>
          (case map_of al k of None \<Rightarrow> (Inl KeyError, w) | Some v \<Rightarrow> (Inr v, w))
      | _ \<Rightarrow> (Inl TypeError, w))"

definition annotations_setitem :: "addr \<Rightarrow> string \<Rightarrow> int list \<Rightarrow> world \<Rightarrow> unit result" where
  "annotations_setitem a k v w =
     (case deref w a of
        Some (RestrictedDict n al) \<Rightarrow>
          (if length v \<noteq> n then (Inl TypeError, w)
           else (Inr (), store a (RestrictedDict n (AList.update k v al)) w))
      | _ \<Rightarrow> (Inl TypeError, w))"

text \<open>Sequencing two steps: an exception of the first ends the computation.\<close>

definition and_then :: "'a result \<Rightarrow> ('a \<Rightarrow> world \<Rightarrow> 'b result) \<Rightarrow> 'b result" where
  "and_then r f = (case r of (Inl e, w) \<Rightarrow> (Inl e, w) | (Inr x, w) \<Rightarrow> f x w)"

text \<open>A list comprehension whose element expression can raise: the first exception wins.\<close>

fun collect :: "(error + 'a) list \<Rightarrow> error + 'a list" where
  "collect [] = Inr []"
| "collect (Inl e # rs) = Inl e"
| "collect (Inr x # rs) = (case collect rs of Inl e \<Rightarrow> Inl e | Inr xs \<Rightarrow> Inr (x # xs))"

section \<open>The error models\<close>

text \<open>
  \<^verbatim>\<open>ErrorModel\<close> holds the two attributes every model has; the two models extend it.
\<close>

record ErrorModel =
  read_length :: nat
  insert_size :: nat

subsection \<open>BasicErrorModel\<close>

record BasicErrorModel = ErrorModel +
  quality :: int

definition BasicErrorModel_init :: BasicErrorModel where
  "BasicErrorModel_init = \<lparr>read_length = 125, insert_size = 200, quality = 30\<rparr>"

text \<open>
  \<^verbatim>\<open>
  def gen_phred_scores(self, mean_quality):
      norm = [min(q, 0.9999) for q in np.random.normal(
          mean_quality, 0.01, self.read_length)]
      phred = [prob_to_phred(p) for p in norm]
      return phred
  \<close>
\<close>

definition basic_gen_phred_scores :: "BasicErrorModel \<Rightarrow> real \<Rightarrow> world \<Rightarrow> (int list) result" where
  "basic_gen_phred_scores self mean_quality w =
     (let (samples, w') = np_random_normal mean_quality 0.01 (read_length self) w;
          norm = map (\<lambda>q. min q 0.9999) samples;
          phred = collect (map prob_to_phred norm)
      in (phred, w'))"

text \<open>
  \<^verbatim>\<open>
  def introduce_error_scores(self, record, orientation):
      record.letter_annotations["phred_quality"] = self.gen_phred_scores(
          phred_to_prob(self.quality))
      return record
  \<close>
\<close>

definition basic_introduce_error_scores ::
  "BasicErrorModel \<Rightarrow> SeqRecord \<Rightarrow> string \<Rightarrow> world \<Rightarrow> SeqRecord result" where
  "basic_introduce_error_scores self record orientation w =
     and_then (basic_gen_phred_scores self
                 (phred_to_prob_binary64 (libm_pow w) (of_int (quality self))) w)
       (\<lambda>phred w1.
          and_then (annotations_setitem (letter_annotations record) ''phred_quality'' phred w1)
            (\<lambda>_ w2. (Inr record, w2)))"

text \<open>
  \<^verbatim>\<open>
  def mut_sequence(self, record, orientation):
      nucl_choices = {
          'A': ['T', 'C', 'G'],
          'T': ['A', 'C', 'G'],
          'C': ['A', 'T', 'G'],
          'G': ['A', 'T', 'C']
          }
      mutable_seq = record.seq.tomutable()
      quality_list = record.letter_annotations["phred_quality"]
      position = 0
      for nucl, qual in zip(mutable_seq, quality_list):
          if random.random() > phred_to_prob(qual):
              mutable_seq[position] = random.choice(nucl_choices[nucl])
          position += 1
      return mutable_seq.toseq()
  \<close>
  The loop is a recursion over what is left of \<open>quality_list\<close>; \<open>zip\<close> reads the
  letter at \<open>position\<close> from the mutable sequence when the iteration starts and stops
  when either side is exhausted.
  The threshold \<^verbatim>\<open>phred_to_prob(qual)\<close> is the binary64 number the function returns, and
  the comparison with the draw, itself a binary64 number, is exact.
\<close>

definition basic_nucl_choices :: "(char \<times> string) list" where
  "basic_nucl_choices =
     [(CHR ''A'', ''TCG''), (CHR ''T'', ''ACG''), (CHR ''C'', ''ATG''), (CHR ''G'', ''ATC'')]"

fun basic_mut_loop :: "int list \<Rightarrow> nat \<Rightarrow> addr \<Rightarrow> world \<Rightarrow> unit result" where
  "basic_mut_loop [] position mutable_seq w = (Inr (), w)"
| "basic_mut_loop (qual # rest) position mutable_seq w =
     (case deref w mutable_seq of
        Some (MutableSeq letters) \<Rightarrow>
          if position < length letters then
            (let nucl = letters ! position;
                 (u, w1) = random_random w
             in if phred_to_prob_binary64 (libm_pow w) (of_int qual) < u then
                  (case map_of basic_nucl_choices nucl of
                     None \<Rightarrow> (Inl KeyError, w1)
                   | Some alternatives \<Rightarrow>
                       (case random_choice alternatives w1 of
                          (Inl e, w2) \<Rightarrow> (Inl e, w2)
                        | (Inr c, w2) \<Rightarrow>
                            basic_mut_loop rest (position + 1) mutable_seq
                              (store mutable_seq (MutableSeq (letters[position := c])) w2)))
                else basic_mut_loop rest (position + 1) mutable_seq w1)
          else (Inr (), w)
      | _ \<Rightarrow> (Inl TypeError, w))"

definition basic_mut_sequence ::
  "BasicErrorModel \<Rightarrow> SeqRecord \<Rightarrow> string \<Rightarrow> world \<Rightarrow> addr result" where
  "basic_mut_sequence self record orientation w =
     and_then (tomutable (seq record) w)
       (\<lambda>mutable_seq w1.
          and_then (annotations_getitem (letter_annotations record) ''phred_quality'' w1)
            (\<lambda>quality_list w2.
               and_then (basic_mut_loop quality_list 0 mutable_seq w2)
                 (\<lambda>_ w3. toseq mutable_seq w3)))"

subsection \<open>KernelDensityErrorModel\<close>

text \<open>
  The model keeps what \<^verbatim>\<open>np.load\<close> read from the profile: a histogram is a pair
  \<open>(values, indices)\<close> of bin counts and bin edges, a substitution matrix has one row of
  counts per position.
\<close>

type_synonym histogram = "real list \<times> real list"

record error_profile =
  profile_read_length :: nat
  profile_insert_size :: nat
  profile_quality_hist_forward :: "histogram list"
  profile_quality_hist_reverse :: "histogram list"
  profile_subst_matrix_forward :: "real list list"
  profile_subst_matrix_reverse :: "real list list"

record KernelDensityErrorModel = ErrorModel +
  quality_hist_forward :: "histogram list"
  quality_hist_reverse :: "histogram list"
  subst_matrix_forward :: "real list list"
  subst_matrix_reverse :: "real list list"

definition KernelDensityErrorModel_init :: "error_profile \<Rightarrow> KernelDensityErrorModel" where
  "KernelDensityErrorModel_init prof =
     \<lparr>read_length = profile_read_length prof,
      insert_size = profile_insert_size prof,
      quality_hist_forward = profile_quality_hist_forward prof,
      quality_hist_reverse = profile_quality_hist_reverse prof,
      subst_matrix_forward = profile_subst_matrix_forward prof,
      subst_matrix_reverse = profile_subst_matrix_reverse prof\<rparr>"

text \<open>
  \<^verbatim>\<open>
  def gen_phred_scores(self, histograms):
      phred_list = []
      for hist in histograms:
          values, indices = hist
          weights = values / np.sum(values)
          random_quality = np.random.choice(
              indices[1:], p=weights
          )
          phred_list.append(round(random_quality))
      return phred_list
  \<close>
\<close>

fun kde_gen_loop :: "histogram list \<Rightarrow> int list \<Rightarrow> world \<Rightarrow> (int list) result" where
  "kde_gen_loop [] phred_list w = (Inr phred_list, w)"
| "kde_gen_loop (hist # rest) phred_list w =
     (let (vals, indices) = hist;
          weights = map (\<lambda>v. np_div v (sum_list vals)) vals
      in case np_random_choice (drop 1 indices) weights w of
           (Inl e, w1) \<Rightarrow> (Inl e, w1)
         | (Inr random_quality, w1) \<Rightarrow>
             kde_gen_loop rest (phred_list @ [py_round random_quality]) w1)"

definition kde_gen_phred_scores ::
  "KernelDensityErrorModel \<Rightarrow> histogram list \<Rightarrow> world \<Rightarrow> (int list) result" where
  "kde_gen_phred_scores self histograms w = kde_gen_loop histograms [] w"

text \<open>
  \<^verbatim>\<open>
  def introduce_error_scores(self, record, orientation):
      if orientation == 'forward':
          record.letter_annotations["phred_quality"] = self.gen_phred_scores(
              self.quality_hist_forward)
      elif orientation == 'reverse':
          record.letter_annotations["phred_quality"] = self.gen_phred_scores(
              self.quality_hist_reverse)
      else:
          print('bad orientation. Fatal')  # add an exit here

      return record
  \<close>
\<close>

definition kde_introduce_error_scores ::
  "KernelDensityErrorModel \<Rightarrow> SeqRecord \<Rightarrow> string \<Rightarrow> world \<Rightarrow> SeqRecord result" where
  "kde_introduce_error_scores self record orientation w =
     (if orientation = ''forward'' then
        and_then (kde_gen_phred_scores self (quality_hist_forward self) w)
          (\<lambda>phred w1.
             and_then (annotations_setitem (letter_annotations record) ''phred_quality'' phred w1)
               (\<lambda>_ w2. (Inr record, w2)))
      else if orientation = ''reverse'' then
        and_then (kde_gen_phred_scores self (quality_hist_reverse self) w)
          (\<lambda>phred w1.
             and_then (annotations_setitem (letter_annotations record) ''phred_quality'' phred w1)
               (\<lambda>_ w2. (Inr record, w2)))
      else (Inr record, py_print ''bad orientation. Fatal'' w))"

text \<open>
  \<^verbatim>\<open>
  def subst_matrix_to_choices(self, subst_dispatch_dict):
      sums = {
          'A': sum(subst_dispatch_dict[1:4]),
          'T': sum(subst_dispatch_dict[5:8]),
          'C': sum(subst_dispatch_dict[9:12]),
          'G': sum(subst_dispatch_dict[13:])
      }
      nucl_choices = {
          'A': (['T', 'C', 'G'],
                [count / sums['A'] for count in subst_dispatch_dict[1:4]]),
          'T': (['A', 'C', 'G'],
                [count / sums['T'] for count in subst_dispatch_dict[5:8]]),
          'C': (['A', 'T', 'G'],
                [count / sums['C'] for count in subst_dispatch_dict[9:12]]),
          'G': (['A', 'T', 'C'],
                [count / sums['G'] for count in subst_dispatch_dict[13:]])
      }
      return nucl_choices
  \<close>
  The argument is a row of a numpy array, so the divisions are numpy's.
\<close>

definition subst_matrix_to_choices ::
  "KernelDensityErrorModel \<Rightarrow> real list \<Rightarrow> (char \<times> string \<times> npfloat list) list" where
  "subst_matrix_to_choices self subst_dispatch_dict =
     (let sums_A = sum_list (slice 1 4 subst_dispatch_dict);
          sums_T = sum_list (slice 5 8 subst_dispatch_dict);
          sums_C = sum_list (slice 9 12 subst_dispatch_dict);
          sums_G = sum_list (drop 13 subst_dispatch_dict)
      in [(CHR ''A'', (''TCG'', map (\<lambda>count. np_div count sums_A) (slice 1 4 subst_dispatch_dict))),
          (CHR ''T'', (''ACG'', map (\<lambda>count. np_div count sums_T) (slice 5 8 subst_dispatch_dict))),
          (CHR ''C'', (''ATG'', map (\<lambda>count. np_div count sums_C) (slice 9 12 subst_dispatch_dict))),
          (CHR ''G'', (''ATC'', map (\<lambda>count. np_div count sums_G) (drop 13 subst_dispatch_dict)))])"

text \<open>
  \<^verbatim>\<open>
  def mut_sequence(self, record, orientation):
      if orientation == 'forward':
          subst_matrix = self.subst_matrix_forward
      elif orientation == 'reverse':
          subst_matrix = self.subst_matrix_reverse
      else:
          print('this is bad')  # TODO error message and proper logging

      mutable_seq = record.seq.tomutable()
      quality_list = record.letter_annotations["phred_quality"]
      position = 0
      for nucl, qual in zip(mutable_seq, quality_list):
          nucl_choices = self.subst_matrix_to_choices(subst_matrix[position])
          if random.random() > phred_to_prob(qual):
              mutable_seq[position] = np.random.choice(
                  nucl_choices[nucl][0],
                  p=nucl_choices[nucl][1])
          position += 1
      return mutable_seq.toseq()
  \<close>
  After the \<open>else\<close> branch the local \<open>subst_matrix\<close> is unbound (\<open>None\<close> below), and
  reading it in the loop raises UnboundLocalError.
  The draw is compared with the binary64 result of \<^verbatim>\<open>phred_to_prob(qual)\<close>, as in the
  basic model.
\<close>

fun kde_mut_loop ::
  "KernelDensityErrorModel \<Rightarrow> real list list option \<Rightarrow> int list \<Rightarrow> nat \<Rightarrow> addr \<Rightarrow> world
     \<Rightarrow> unit result" where
  "kde_mut_loop self subst_matrix [] position mutable_seq w = (Inr (), w)"
| "kde_mut_loop self subst_matrix (qual # rest) position mutable_seq w =
     (case deref w mutable_seq of
        Some (MutableSeq letters) \<Rightarrow>
          if position < length letters then
            (let nucl = letters ! position
             in case subst_matrix of
                  None \<Rightarrow> (Inl UnboundLocalError, w)
                | Some matrix \<Rightarrow>
                    if position < length matrix then
                      (let nucl_choices = subst_matrix_to_choices self (matrix ! position);
                           (u, w1) = random_random w
                       in if phred_to_prob_binary64 (libm_pow w) (of_int qual) < u then
                            (case map_of nucl_choices nucl of
                               None \<Rightarrow> (Inl KeyError, w1)
                             | Some (alternatives, probabilities) \<Rightarrow>
                                 (case np_random_choice alternatives probabilities w1 of
                                    (Inl e, w2) \<Rightarrow> (Inl e, w2)
                                  | (Inr c, w2) \<Rightarrow>
                                      kde_mut_loop self subst_matrix rest (position + 1) mutable_seq
                                        (store mutable_seq (MutableSeq (letters[position := c])) w2)))
                          else kde_mut_loop self subst_matrix rest (position + 1) mutable_seq w1)
                    else (Inl IndexError, w))
          else (Inr (), w)
      | _ \<Rightarrow> (Inl TypeError, w))"

definition kde_mut_sequence ::
  "KernelDensityErrorModel \<Rightarrow> SeqRecord \<Rightarrow> string \<Rightarrow> world \<Rightarrow> addr result" where
  "kde_mut_sequence self record orientation w =
     (let (subst_matrix, w0) =
            (if orientation = ''forward'' then (Some (subst_matrix_forward self), w)
             else if orientation = ''reverse'' then (Some (subst_matrix_reverse self), w)
             else (None, py_print ''this is bad'' w))
      in and_then (tomutable (seq record) w0)
           (\<lambda>mutable_seq w1.
              and_then (annotations_getitem (letter_annotations record) ''phred_quality'' w1)
                (\<lambda>quality_list w2.
                   and_then (kde_mut_loop self subst_matrix quality_list 0 mutable_seq w2)
                     (\<lambda>_ w3. toseq mutable_seq w3))))"

section \<open>Well-formed inputs\<close>

text \<open>The alphabet of a nucleotide sequence.\<close>

definition nucleotides :: "char set" where
  "nucleotides = {CHR ''A'', CHR ''T'', CHR ''C'', CHR ''G''}"

text \<open>
  A row of a substitution matrix that the empirical model can always draw from: sixteen
  counts, none negative, and for each source base a positive total over the three counts
  the model reads for it.
\<close>

definition valid_subst_row :: "real list \<Rightarrow> bool" where
  "valid_subst_row row \<longleftrightarrow>
     length row = 16 \<and> list_all (\<lambda>c. 0 \<le> c) row \<and>
     0 < sum_list (slice 1 4 row) \<and> 0 < sum_list (slice 5 8 row) \<and>
     0 < sum_list (slice 9 12 row) \<and> 0 < sum_list (drop 13 row)"

text \<open>A bound substitution matrix with a valid row for each of the first \<open>n\<close> positions.\<close>

definition valid_subst_matrix :: "real list list option \<Rightarrow> nat \<Rightarrow> bool" where
  "valid_subst_matrix sm n \<longleftrightarrow>
     (case sm of
        None \<Rightarrow> False
      | Some matrix \<Rightarrow> n \<le> length matrix \<and> list_all valid_subst_row matrix)"

text \<open>
  A histogram as \<^verbatim>\<open>np.histogram\<close> returns it: at least one bin, one more edge than bins,
  no negative bin count and a positive total.
\<close>

definition valid_histogram :: "histogram \<Rightarrow> bool" where
  "valid_histogram hist \<longleftrightarrow>
     (case hist of (vals, indices) \<Rightarrow>
        vals \<noteq> [] \<and> length indices = length vals + 1 \<and>
        list_all (\<lambda>v. 0 \<le> v) vals \<and> 0 < sum_list vals)"


section \<open>The count vector read as a matrix\<close>

text \<open>
  The reading of the count vector as a 4 by 4 matrix stored row by row, rows (source base)
  and columns (target base) both in the order A, T, C, G: the count for source \<open>r\<close> and
  target \<open>c\<close> is at index \<open>4 * r + c\<close>, the diagonal is at 0, 5, 10 and 15, and the
  probabilities for a source base normalise the three off-diagonal counts of its row.
  This is a reading of the data, not a function of the module; it is compared with
  \<open>subst_matrix_to_choices\<close> below.
\<close>

definition row_major_off_diagonal :: "nat \<Rightarrow> real list \<Rightarrow> real list" where
  "row_major_off_diagonal r v = map (\<lambda>c. v ! (4 * r + c)) (filter (\<lambda>c. c \<noteq> r) [0..<4])"

definition row_major_probabilities :: "nat \<Rightarrow> real list \<Rightarrow> npfloat list" where
  "row_major_probabilities r v =
     (let counts = row_major_off_diagonal r v
      in map (\<lambda>count. np_div count (sum_list counts)) counts)"

section \<open>Example inputs\<close>

text \<open>
  A world with one record: the sequence ACGT at address 0 and its annotations, four
  qualities 0, at address 1. Python's generator always yields 1 (so \<^verbatim>\<open>random.random()\<close>
  is \<open>1 / 2 ^ 53\<close>, above the \<open>0.0\<close> that \<^verbatim>\<open>phred_to_prob(0)\<close> returns: every position is
  substituted), numpy's always yields 0. \<open>pow\<close> returns the exact power rounded to binary64.
\<close>

definition example_world :: world where
  "example_world =
     \<lparr>heap = [Seq ''ACGT'', RestrictedDict 4 [(''phred_quality'', [0, 0, 0, 0])]],
      stdout = [],
      py_bits = (\<lambda>i. 1), py_pos = 0,
      np_bits = (\<lambda>i. 0), np_gauss = (\<lambda>i. 0), np_pos = 0,
      libm_pow = (\<lambda>b x. binary64 (b powr x))\<rparr>"

definition example_record :: SeqRecord where
  "example_record = \<lparr>seq = 0, letter_annotations = 1\<rparr>"

text \<open>The same world once \<open>mut_sequence\<close> has made its mutable copy of the sequence.\<close>

definition copied_world :: world where
  "copied_world = example_world\<lparr>heap := heap example_world @ [MutableSeq ''ACGT'']\<rparr>"

text \<open>
  A world whose record holds the one letter A with quality 10, and whose Python generator
  always yields 8106479329266893: \<^verbatim>\<open>random.random()\<close> is then the float \<open>0.9\<close>, the very
  number \<^verbatim>\<open>phred_to_prob(10)\<close> returns, and the draw does not exceed the threshold. Below it
  is the same world once \<open>mut_sequence\<close> has made its mutable copy.
\<close>

definition boundary_world :: world where
  "boundary_world =
     example_world\<lparr>heap := [Seq ''A'', RestrictedDict 1 [(''phred_quality'', [10])]],
                   py_bits := (\<lambda>i. 8106479329266893)\<rparr>"

definition boundary_copied_world :: world where
  "boundary_copied_world = boundary_world\<lparr>heap := heap boundary_world @ [MutableSeq ''A'']\<rparr>"

text \<open>A world whose record holds the empty sequence.\<close>

definition empty_world :: world where
  "empty_world = example_world\<lparr>heap := [Seq [], RestrictedDict 0 [(''phred_quality'', [])]]\<rparr>"

text \<open>A world whose record holds 125 letters and no annotation yet.\<close>

definition long_world :: world where
  "long_world =
     \<lparr>heap = [Seq (replicate 125 CHR ''A''), RestrictedDict 125 []],
      stdout = [],
      py_bits = (\<lambda>i. 1), py_pos = 0,
      np_bits = (\<lambda>i. 0), np_gauss = (\<lambda>i. 0), np_pos = 0,
      libm_pow = (\<lambda>b x. binary64 (b powr x))\<rparr>"

text \<open>A profile for reads of length 4, and the empirical model built from it.\<close>

definition example_row :: "real list" where
  "example_row = [0, 1, 2, 1, 0, 1, 1, 2, 0, 3, 1, 1, 0, 1, 1, 1]"

definition example_profile :: error_profile where
  "example_profile =
     \<lparr>profile_read_length = 4, profile_insert_size = 200,
      profile_quality_hist_forward = replicate 4 ([1, 3], [0, 20, 30]),
      profile_quality_hist_reverse = replicate 4 ([3, 1], [0, 20, 30]),
      profile_subst_matrix_forward = replicate 4 example_row,
      profile_subst_matrix_reverse = replicate 4 example_row\<rparr>"

definition example_model :: KernelDensityErrorModel where
  "example_model = KernelDensityErrorModel_init example_profile"

text \<open>The same profile with substitution counts that are all zero.\<close>

definition zero_row :: "real list" where
  "zero_row = [0, 0, 0, 0, 0, 0, 0, 0, 0, 0, 0, 0, 0, 0, 0, 0]"

definition degenerate_model :: KernelDensityErrorModel where
  "degenerate_model =
     KernelDensityErrorModel_init
       (example_profile\<lparr>profile_subst_matrix_forward := replicate 4 zero_row,
                         profile_subst_matrix_reverse := replicate 4 zero_row\<rparr>)"

section \<open>Properties of the probability conversion\<close>

lemma py_round_of_int: "py_round (of_int n) = n"
  by (simp add: py_round_def)

lemma phred_to_prob_complement: "1 - phred_to_prob q = 10 powr (- q / 10)"
  by (simp add: phred_to_prob_def)

lemma prob_to_phred_phred_to_prob: "prob_to_phred (phred_to_prob (of_int q)) = Inr q"
proof -
  have pos: "(0::real) < 10 powr (- of_int q / 10)"
    by simp
  have "- 10 * log 10 (10 powr (- of_int q / 10)) = (of_int q :: real)"
    by simp
  then show ?thesis
    unfolding prob_to_phred_def phred_to_prob_complement Let_def
    using pos by (simp only: if_True py_round_of_int)
qed

lemma phred_to_prob_at_10: "phred_to_prob 10 = 9 / 10"
  by (simp add: phred_to_prob_def powr_minus)

lemma phred_to_prob_exact:
  "phred_to_prob 0 = 0 \<and>
   (\<forall>q. 0 \<le> q \<longrightarrow> 0 \<le> phred_to_prob q \<and> phred_to_prob q < 1) \<and>
   (\<forall>q1 q2. 0 \<le> q1 \<and> q1 < q2 \<longrightarrow> phred_to_prob q1 < phred_to_prob q2)"
proof (intro conjI allI impI)
  show "phred_to_prob 0 = 0" by (simp add: phred_to_prob_def)
next
  fix q :: real
  assume "0 \<le> q"
  then have "(10::real) powr (- q / 10) \<le> 10 powr 0"
    by (intro powr_mono) simp_all
  then show "0 \<le> phred_to_prob q" by (simp add: phred_to_prob_def)
next
  fix q :: real
  have "(0::real) < 10 powr (- q / 10)" by simp
  then show "phred_to_prob q < 1" by (simp add: phred_to_prob_def)
next
  fix q1 q2 :: real
  assume "0 \<le> q1 \<and> q1 < q2"
  then have "(10::real) powr (- q2 / 10) < 10 powr (- q1 / 10)"
    by (intro powr_less_mono) simp_all
  then show "phred_to_prob q1 < phred_to_prob q2" by (simp add: phred_to_prob_def)
qed

subsection \<open>Rounded evaluation\<close>

lemma py_round_bounds: "x - 1 / 2 \<le> of_int (py_round x) \<and> of_int (py_round x) \<le> x + 1 / 2"
proof -
  define f where "f = \<lfloor>x\<rfloor>"
  have f: "of_int f \<le> x" "x < of_int f + 1" unfolding f_def by linarith+
  consider "x - of_int f < 1 / 2" | "1 / 2 < x - of_int f" | "x - of_int f = 1 / 2" by linarith
  then show ?thesis
  proof cases
    case 1
    then have "py_round x = f" by (simp add: py_round_def f_def Let_def)
    then show ?thesis using f 1 by simp
  next
    case 2
    then have "py_round x = f + 1" by (simp add: py_round_def f_def Let_def)
    then show ?thesis using f 2 by simp
  next
    case 3
    then have "py_round x = f \<or> py_round x = f + 1" by (simp add: py_round_def f_def Let_def)
    then show ?thesis using f 3 by auto
  qed
qed

lemma py_round_mono_int: "of_int n \<le> x \<Longrightarrow> n \<le> py_round x"
proof -
  assume a: "of_int n \<le> x"
  then have "n \<le> \<lfloor>x\<rfloor>" by (simp add: le_floor_iff)
  then show ?thesis by (auto simp: py_round_def Let_def)
qed

lemma py_round_le_int: "x \<le> of_int n \<Longrightarrow> py_round x \<le> n"
proof -
  assume a: "x \<le> of_int n"
  show ?thesis
  proof (cases "x = of_int n")
    case True
    then show ?thesis by (simp add: py_round_def)
  next
    case False
    then have "x < of_int n" using a by simp
    then have "\<lfloor>x\<rfloor> < n" by (simp add: floor_less_iff)
    then show ?thesis by (auto simp: py_round_def Let_def)
  qed
qed

lemma binade:
  assumes "0 < x"
  shows "2 powr of_int \<lfloor>log 2 x\<rfloor> \<le> x \<and> x < 2 powr (of_int \<lfloor>log 2 x\<rfloor> + 1)"
proof -
  have x: "2 powr log 2 x = x" using assms by simp
  have "(2::real) powr of_int \<lfloor>log 2 x\<rfloor> \<le> 2 powr log 2 x"
    by (intro powr_mono) simp_all
  moreover have "log 2 x < of_int \<lfloor>log 2 x\<rfloor> + 1" by linarith
  then have "(2::real) powr log 2 x < 2 powr (of_int \<lfloor>log 2 x\<rfloor> + 1)"
    by (intro powr_less_mono) simp_all
  ultimately show ?thesis using x by simp
qed


lemma py_round_ge: "real_of_int n \<le> x \<Longrightarrow> real_of_int n \<le> of_int (py_round x)"
  using py_round_mono_int [of n x] by (simp only: of_int_le_iff)

lemma py_round_le: "x \<le> real_of_int n \<Longrightarrow> real_of_int (py_round x) \<le> of_int n"
  using py_round_le_int [of x n] by (simp only: of_int_le_iff)

text \<open>Rounding keeps a positive number inside its binade, ends included.\<close>

lemma binary64_in_binade:
  assumes "0 < x"
  shows "2 powr of_int \<lfloor>log 2 x\<rfloor> \<le> binary64 x \<and> binary64 x \<le> 2 powr (of_int \<lfloor>log 2 x\<rfloor> + 1)"
proof -
  define e where "e = \<lfloor>log 2 x\<rfloor>"
  define ulp :: real where "ulp = 2 powr (of_int e - 52)"
  have u: "0 < ulp" by (simp add: ulp_def)
  have b: "binary64 x = ulp * of_int (py_round (x / ulp))"
    using assms by (simp add: binary64_def Let_def e_def ulp_def)
  have lo: "2 powr of_int e = ulp * 2 ^ 52"
    by (simp add: ulp_def powr_diff)
  have hi: "2 powr (of_int e + 1) = ulp * 2 ^ 53"
    by (simp add: ulp_def powr_diff powr_add)
  from binade [OF assms] have x: "ulp * 2 ^ 52 \<le> x" "x < ulp * 2 ^ 53"
    unfolding e_def [symmetric] lo hi by simp_all
  have "real_of_int (2 ^ 52) \<le> x / ulp" using x(1) u by (simp add: pos_le_divide_eq mult.commute)
  then have "real_of_int (2 ^ 52) \<le> of_int (py_round (x / ulp))" by (rule py_round_ge)
  then have r1: "2 ^ 52 \<le> real_of_int (py_round (x / ulp))" by simp
  have "x / ulp \<le> real_of_int (2 ^ 53)" using x(2) u by (simp add: pos_divide_le_eq mult.commute)
  then have "real_of_int (py_round (x / ulp)) \<le> of_int (2 ^ 53)" by (rule py_round_le)
  then have r2: "real_of_int (py_round (x / ulp)) \<le> 2 ^ 53" by simp
  have "ulp * 2 ^ 52 \<le> ulp * of_int (py_round (x / ulp))"
    using r1 u by (intro mult_left_mono) simp_all
  moreover have "ulp * of_int (py_round (x / ulp)) \<le> ulp * 2 ^ 53"
    using r2 u by (intro mult_left_mono) simp_all
  ultimately show ?thesis unfolding e_def [symmetric] lo hi b by simp
qed



lemma binary64_one: "binary64 1 = 1"
proof -
  have u: "(2::real) powr (- 52) = 1 / 2 ^ 52" by (simp add: powr_minus_divide)
  have "py_round (real_of_int (2 ^ 52)) = 2 ^ 52" by (rule py_round_of_int)
  then have r: "py_round (2 ^ 52) = 2 ^ 52" by simp
  have "binary64 1 = (1 / 2 ^ 52) * of_int (py_round (1 / (1 / 2 ^ 52)))"
    by (simp add: binary64_def u)
  also have "\<dots> = (1 / 2 ^ 52) * of_int (py_round (2 ^ 52))" by simp
  also have "\<dots> = 1" unfolding r by simp
  finally show ?thesis .
qed

lemma binary64_unit_interval:
  assumes "0 \<le> x" and "x \<le> 1"
  shows "0 \<le> binary64 x \<and> binary64 x \<le> 1"
proof -
  consider "x = 0" | "x = 1" | "0 < x" "x < 1" using assms by linarith
  then show ?thesis
  proof cases
    case 1
    then show ?thesis by (simp add: binary64_def)
  next
    case 2
    then show ?thesis by (simp add: binary64_one)
  next
    case 3
    have "log 2 x < 0" using 3 by simp
    then have "\<lfloor>log 2 x\<rfloor> \<le> - 1" by (simp add: floor_le_iff)
    then have "real_of_int \<lfloor>log 2 x\<rfloor> + 1 \<le> 0" by linarith
    then have "(2::real) powr (of_int \<lfloor>log 2 x\<rfloor> + 1) \<le> 2 powr 0"
      by (intro powr_mono) simp_all
    then have hi: "(2::real) powr (of_int \<lfloor>log 2 x\<rfloor> + 1) \<le> 1" by simp
    have lo: "(0::real) \<le> 2 powr of_int \<lfloor>log 2 x\<rfloor>" by (rule powr_ge_zero)
    show ?thesis using binary64_in_binade [OF 3(1)] hi lo by linarith
  qed
qed

lemma binary64_at_most_twice:
  assumes "0 < x"
  shows "0 < binary64 x \<and> binary64 x \<le> 2 * x"
proof -
  have "(2::real) powr (of_int \<lfloor>log 2 x\<rfloor> + 1) = 2 * 2 powr of_int \<lfloor>log 2 x\<rfloor>"
    by (simp add: powr_add)
  moreover have "(0::real) < 2 powr of_int \<lfloor>log 2 x\<rfloor>" by simp
  ultimately show ?thesis using binary64_in_binade [OF assms] binade [OF assms] by linarith
qed

text \<open>Below one, a difference of at most \<open>2 ^ -54\<close> is lost when the result is rounded.\<close>

lemma binary64_absorbs:
  assumes "0 < p" and "p \<le> 2 powr (- 54)"
  shows "binary64 (1 - p) = 1"
proof -
  let ?x = "1 - p"
  have p54: "(2::real) powr (- 54) = 1 / 2 ^ 54" by (simp add: powr_minus_divide)
  have x: "1 / 2 \<le> ?x" "?x < 1" using assms unfolding p54 by simp_all
  have h: "(2::real) powr (- 1) = 1 / 2" by (simp add: powr_minus_divide)
  have "- 1 \<le> log 2 ?x" using x h by (simp add: le_log_iff)
  moreover have "log 2 ?x < 0" using x by simp
  ultimately have e: "\<lfloor>log 2 \<bar>?x\<bar>\<rfloor> = - 1" using x by (simp add: floor_eq_iff)
  have ulp: "(2::real) powr (of_int (- 1) - 52) = 1 / 2 ^ 53"
    by (simp add: powr_minus_divide)
  have nz: "?x \<noteq> 0" using x by simp
  have b: "binary64 ?x = (1 / 2 ^ 53) * of_int (py_round (?x / (1 / 2 ^ 53)))"
    unfolding binary64_def Let_def e ulp using nz by simp
  define t where "t = p * 2 ^ 53"
  have t: "0 < t" "t \<le> 1 / 2" using assms unfolding t_def p54 by simp_all
  have y: "?x / (1 / 2 ^ 53) = 2 ^ 53 - t" by (simp add: t_def algebra_simps)
  have f: "\<lfloor>(2::real) ^ 53 - t\<rfloor> = 2 ^ 53 - 1"
    using t by (simp add: floor_eq_iff)
  have "py_round (2 ^ 53 - t) = 2 ^ 53"
    unfolding py_round_def Let_def f using t by simp
  then show ?thesis unfolding b y by simp
qed


lemma binary64_minus_20: "binary64 (- 20) = - 20"
proof -
  have p4: "(2::real) powr 4 = 16" and p5: "(2::real) powr 5 = 32" by simp_all
  have "4 \<le> log 2 (20::real)" using p4 by (simp add: le_log_iff)
  moreover have "log 2 (20::real) < 5" using p5 by (simp add: log_less_iff)
  ultimately have e: "\<lfloor>log 2 \<bar>- 20 :: real\<bar>\<rfloor> = 4" by (simp add: floor_eq_iff)
  have ulp: "(2::real) powr (of_int 4 - 52) = 1 / 2 ^ 48" by (simp add: powr_minus_divide)
  have "py_round (real_of_int (- 20 * 2 ^ 48)) = - 20 * 2 ^ 48" by (rule py_round_of_int)
  then have r: "py_round (- 20 / (1 / 2 ^ 48)) = - 20 * 2 ^ 48" by simp
  show ?thesis unfolding binary64_def Let_def e ulp r by simp
qed

lemma power_at_200:
  "0 < binary64 (10 powr (- 20)) \<and> binary64 (10 powr (- 20)) \<le> 2 powr (- 54)"
proof -
  have v: "(10::real) powr (- 20) = 1 / 10 ^ 20" by (simp add: powr_minus_divide)
  have p54: "(2::real) powr (- 54) = 1 / 2 ^ 54" by (simp add: powr_minus_divide)
  have "2 * ((10::real) powr (- 20)) \<le> 2 powr (- 54)" unfolding v p54 by simp
  moreover have "(0::real) < 10 powr (- 20)" by simp
  ultimately show ?thesis using binary64_at_most_twice [of "10 powr (- 20)"] by linarith
qed

text \<open>
  The rounding of a number whose binade is known, and the float \<open>phred_to_prob\<close> returns
  for the qualities 0 and 10 when \<open>pow\<close> returns the exact power rounded: \<open>0.0\<close> and
  \<open>0.9\<close>, the binary64 number \<open>8106479329266893 / 2 ^ 53\<close>, which lies above \<open>9 / 10\<close>.
\<close>

lemma binary64_in:
  assumes "ulp = 2 powr (of_int e - 52)"
    and "2 powr of_int e \<le> \<bar>x\<bar>" and "\<bar>x\<bar> < 2 powr (of_int e + 1)"
  shows "binary64 x = ulp * of_int (py_round (x / ulp))"
proof -
  have "(0::real) < 2 powr of_int e" by simp
  with assms(2) have pos: "0 < \<bar>x\<bar>" by linarith
  have "of_int e \<le> log 2 \<bar>x\<bar>" using assms(2) pos by (simp add: le_log_iff)
  moreover have "log 2 \<bar>x\<bar> < of_int e + 1" using assms(3) pos by (simp add: log_less_iff)
  ultimately have "\<lfloor>log 2 \<bar>x\<bar>\<rfloor> = e" by linarith
  then show ?thesis using pos assms(1) by (simp add: binary64_def Let_def)
qed

lemma phred_to_prob_binary64_0: "pow 10 0 = 1 \<Longrightarrow> phred_to_prob_binary64 pow 0 = 0"
  by (simp add: phred_to_prob_binary64_def binary64_def)

lemma binary64_minus_1: "binary64 (- 1) = - 1"
proof -
  have "binary64 (- 1) = (1 / 2 ^ 52) * of_int (py_round (- 1 / (1 / 2 ^ 52)))"
    by (rule binary64_in [where e = 0]) (simp_all add: powr_minus_divide)
  also have "- 1 / (1 / 2 ^ 52) = real_of_int (- (2 ^ 52))" by simp
  also have "py_round (real_of_int (- (2 ^ 52))) = - (2 ^ 52)" by (rule py_round_of_int)
  finally show ?thesis by simp
qed

lemma binary64_tenth: "binary64 (1 / 10) = 7205759403792794 / 2 ^ 56"
proof -
  have "binary64 (1 / 10) = (1 / 2 ^ 56) * of_int (py_round (1 / 10 / (1 / 2 ^ 56)))"
    by (rule binary64_in [where e = "- 4"]) (simp_all add: powr_minus_divide)
  also have "1 / 10 / (1 / 2 ^ 56) = (72057594037927936 / 10 :: real)" by simp
  also have "py_round (72057594037927936 / 10) = 7205759403792794"
    by (simp add: py_round_def Let_def)
  finally show ?thesis by simp
qed

lemma binary64_nine_tenths:
  "binary64 (1 - 7205759403792794 / 2 ^ 56) = 8106479329266893 / 2 ^ 53"
proof -
  let ?x = "1 - 7205759403792794 / 2 ^ 56 :: real"
  have "binary64 ?x = (1 / 2 ^ 53) * of_int (py_round (?x / (1 / 2 ^ 53)))"
    by (rule binary64_in [where e = "- 1"]) (simp_all add: powr_minus_divide)
  also have "?x / (1 / 2 ^ 53) = (64851834634135142 / 8 :: real)" by simp
  also have "py_round (64851834634135142 / 8) = 8106479329266893"
    by (simp add: py_round_def Let_def)
  finally show ?thesis by simp
qed

lemma phred_to_prob_binary64_10:
  "phred_to_prob_binary64 (\<lambda>b x. binary64 (b powr x)) 10 = 8106479329266893 / 2 ^ 53"
proof -
  have t: "(10::real) powr (- 1) = 1 / 10" by (simp add: powr_minus_divide)
  have "phred_to_prob_binary64 (\<lambda>b x. binary64 (b powr x)) 10
      = binary64 (1 - binary64 (10 powr binary64 (- 1)))"
    by (simp add: phred_to_prob_binary64_def)
  also have "\<dots> = binary64 (1 - 7205759403792794 / 2 ^ 56)"
    by (simp only: binary64_minus_1 t binary64_tenth)
  also have "\<dots> = 8106479329266893 / 2 ^ 53" by (rule binary64_nine_tenths)
  finally show ?thesis .
qed

text \<open>
  The rounding error of one operation is at most \<open>2 ^ -53\<close> of the exact result; the
  round trip accumulates six of them and the errors of \<open>pow\<close> and \<open>log10\<close>.
\<close>

lemma binary64_error:
  "\<bar>binary64 x - x\<bar> \<le> 2 powr (- 53) * \<bar>x\<bar>"
proof (cases "x = 0")
  case True
  then show ?thesis by (simp add: binary64_def)
next
  case False
  define e where "e = \<lfloor>log 2 \<bar>x\<bar>\<rfloor>"
  define ulp :: real where "ulp = 2 powr (of_int e - 52)"
  have u: "0 < ulp" by (simp add: ulp_def)
  have b: "binary64 x = ulp * of_int (py_round (x / ulp))"
    using False by (simp add: binary64_def Let_def e_def ulp_def)
  have ax: "0 < \<bar>x\<bar>" using False by simp
  have lo: "2 powr of_int e = ulp * 2 ^ 52" by (simp add: ulp_def powr_diff)
  from binade [OF ax] have xl: "ulp * 2 ^ 52 \<le> \<bar>x\<bar>"
    unfolding e_def [symmetric] lo by simp
  have "binary64 x - x = ulp * (of_int (py_round (x / ulp)) - x / ulp)"
    using u by (simp add: b algebra_simps)
  then have "\<bar>binary64 x - x\<bar> = ulp * \<bar>of_int (py_round (x / ulp)) - x / ulp\<bar>"
    using u by (simp add: abs_mult)
  also have "\<dots> \<le> ulp * (1 / 2)"
  proof -
    from py_round_bounds [of "x / ulp"]
    have "\<bar>of_int (py_round (x / ulp)) - x / ulp\<bar> \<le> 1 / 2" by linarith
    then show ?thesis using u by (intro mult_left_mono) simp_all
  qed
  also have "\<dots> = 2 powr (- 53) * (ulp * 2 ^ 52)" by (simp add: powr_minus_divide)
  also have "\<dots> \<le> 2 powr (- 53) * \<bar>x\<bar>" using xl by (intro mult_left_mono) simp_all
  finally show ?thesis .
qed

lemma py_round_near: "\<bar>x - of_int n\<bar> < 1 / 2 \<Longrightarrow> py_round x = n"
proof -
  assume a: "\<bar>x - of_int n\<bar> < 1 / 2"
  from py_round_bounds [of x] have "\<bar>real_of_int (py_round x) - x\<bar> \<le> 1 / 2"
    by linarith
  with a have "\<bar>real_of_int (py_round x) - of_int n\<bar> < 1" by linarith
  then have "\<bar>real_of_int (py_round x - n)\<bar> < 1" by simp
  then have "\<bar>py_round x - n\<bar> < 1" by (simp only: of_int_abs [symmetric] of_int_less_1_iff)
  then show ?thesis by simp
qed


lemma ln10_bounds: "1 \<le> ln (10::real)" "ln (10::real) \<le> 4"
proof -
  have "exp (1::real) \<le> 10" using exp_le by linarith
  then have "ln (exp (1::real)) \<le> ln 10" by (subst ln_le_cancel_iff) simp_all
  then show "1 \<le> ln (10::real)" by simp
  have "ln (10::real) \<le> ln (2 ^ 4)" by (subst ln_le_cancel_iff) simp_all
  also have "\<dots> = 4 * ln (2::real)" by (simp only: ln_realpow)
  also have "\<dots> \<le> 4" using ln_2_less_1 by simp
  finally show "ln (10::real) \<le> 4" .
qed

lemma powr10_near:
  fixes h :: real
  assumes "\<bar>h\<bar> \<le> 1 / 4"
  shows "\<bar>10 powr h - 1\<bar> \<le> 8 * \<bar>h\<bar>"
proof -
  define y :: real where "y = h * ln 10"
  have e: "10 powr h = exp y" by (simp add: powr_def y_def)
  have "\<bar>y\<bar> = \<bar>h\<bar> * ln 10" using ln10_bounds(1) by (simp add: y_def abs_mult)
  also have "\<dots> \<le> \<bar>h\<bar> * 4" using ln10_bounds(2) by (intro mult_left_mono) simp_all
  finally have y4: "\<bar>y\<bar> \<le> 4 * \<bar>h\<bar>" by simp
  with assms have y1: "\<bar>y\<bar> \<le> 1" by linarith
  have lo: "1 + y \<le> exp y" by (rule exp_ge_add_one_self)
  show ?thesis
  proof (cases "0 \<le> y")
    case True
    with y1 have "exp y \<le> 1 + y + y\<^sup>2" by (intro exp_bound) simp_all
    moreover have "y\<^sup>2 \<le> y" using True y1 by (simp add: power2_eq_square mult_left_le)
    ultimately show ?thesis using lo True y4 unfolding e by linarith
  next
    case False
    then have "exp y \<le> 1" by simp
    then show ?thesis using lo False y4 unfolding e by linarith
  qed
qed

lemma log10_near:
  fixes k :: real
  assumes "\<bar>k\<bar> \<le> 1 / 2"
  shows "\<bar>log 10 (1 + k)\<bar> \<le> 2 * \<bar>k\<bar>"
proof -
  from abs_ln_one_plus_x_minus_x_bound [OF assms]
  have a: "\<bar>ln (1 + k) - k\<bar> \<le> 2 * k\<^sup>2" .
  have "k\<^sup>2 = \<bar>k\<bar> * \<bar>k\<bar>" by (simp add: power2_eq_square)
  also have "\<dots> \<le> \<bar>k\<bar> * (1 / 2)" using assms by (intro mult_left_mono) simp_all
  finally have "2 * k\<^sup>2 \<le> \<bar>k\<bar>" by simp
  with a have b: "\<bar>ln (1 + k)\<bar> \<le> 2 * \<bar>k\<bar>" by linarith
  have "\<bar>log 10 (1 + k)\<bar> = \<bar>ln (1 + k)\<bar> / ln 10"
    using ln10_bounds(1) by (simp add: log_def)
  also have "\<dots> \<le> \<bar>ln (1 + k)\<bar> / 1"
    using ln10_bounds(1) by (intro divide_left_mono) simp_all
  finally show ?thesis using b by simp
qed


lemma rounding_units:
  "2 powr (- 53) \<le> (1 / 1000000000000000 :: real)" "2 powr (- 50) \<le> (1 / 1000000000000000 :: real)"
proof -
  have "(1000000000000000::real) \<le> 2 ^ 50" by simp
  then have a: "1 / 2 ^ 50 \<le> (1 / 1000000000000000 :: real)" by (intro divide_left_mono) simp_all
  have "(2::real) powr (- 50) = 1 / 2 ^ 50" by (simp add: powr_minus_divide)
  with a show "2 powr (- 50) \<le> (1 / 1000000000000000 :: real)" by simp
  have "(2::real) powr (- 53) \<le> 2 powr (- 50)" by (intro powr_mono) simp_all
  with \<open>2 powr (- 50) \<le> (1 / 1000000000000000 :: real)\<close>
  show "2 powr (- 53) \<le> (1 / 1000000000000000 :: real)" by linarith
qed

lemma binary64_error_bound:
  assumes "\<bar>x\<bar> \<le> b"
  shows "\<bar>binary64 x - x\<bar> \<le> b / 1000000000000000"
proof -
  have "\<bar>binary64 x - x\<bar> \<le> 2 powr (- 53) * \<bar>x\<bar>" by (rule binary64_error)
  also have "\<dots> \<le> (1 / 1000000000000000) * \<bar>x\<bar>"
    using rounding_units(1) by (intro mult_right_mono) simp_all
  also have "\<dots> \<le> (1 / 1000000000000000) * b" using assms by (intro mult_left_mono) simp_all
  finally show ?thesis by simp
qed

lemma round_trip_binary64:
  fixes q :: int
  assumes q: "0 \<le> q" "q \<le> 60"
    and pw: "\<And>x. \<bar>x\<bar> \<le> 7 \<Longrightarrow> \<bar>pow 10 x - 10 powr x\<bar> \<le> 2 powr (- 50) * 10 powr x"
    and lg: "\<And>x. 0 < x \<Longrightarrow> \<bar>log10 x - log 10 x\<bar> \<le> 2 powr (- 50) * \<bar>log 10 x\<bar>"
  shows "prob_to_phred_binary64 log10 (phred_to_prob_binary64 pow (of_int q)) = Inr q"
proof -
  define Q :: real where "Q = of_int q"
  define E :: real where "E = 1 / 1000000000000000"
  have Q: "0 \<le> Q" "Q \<le> 60" using q by (simp_all add: Q_def)
  define t where "t = binary64 (- Q / 10)"
  define h where "h = t + Q / 10"
  define P where "P = 10 powr (- Q / 10)"
  define a where "a = 10 powr h"
  define p where "p = pow 10 t"
  define c where "c = binary64 (1 - p)"
  define d where "d = binary64 (1 - c)"
  define k where "k = d / P - 1"
  define l where "l = log10 d"
  define r where "r = binary64 (- 10 * l)"
  have "\<bar>- Q / 10\<bar> \<le> 6" using Q by simp
  from binary64_error_bound [OF this] have h: "\<bar>h\<bar> \<le> 6 * E"
    by (simp add: h_def t_def E_def)
  then have "\<bar>h\<bar> \<le> 1 / 4" unfolding E_def by linarith
  from powr10_near [OF this] h have a: "\<bar>a - 1\<bar> \<le> 48 * E" unfolding a_def by linarith
  then have a2: "0 \<le> a" "a \<le> 2" unfolding E_def by linarith+
  have P0: "0 < P" by (simp add: P_def)
  have P1: "P \<le> 1"
  proof -
    have "P \<le> 10 powr 0" unfolding P_def using Q by (intro powr_mono) simp_all
    then show ?thesis by simp
  qed
  have P6: "1 \<le> 10 ^ 6 * P"
  proof -
    have "10 powr (- 6) \<le> P" unfolding P_def using Q by (intro powr_mono) simp_all
    moreover have "(10::real) powr (- 6) = 1 / 10 ^ 6" by (simp add: powr_minus_divide)
    ultimately show ?thesis by simp
  qed
  have tP: "10 powr t = P * a"
  proof -
    have "t = - Q / 10 + h" by (simp add: h_def)
    then show ?thesis by (simp only: P_def a_def powr_add)
  qed
  have "\<bar>t\<bar> \<le> 7" using h Q unfolding h_def E_def by linarith
  from pw [OF this] have "\<bar>p - P * a\<bar> \<le> 2 powr (- 50) * (P * a)"
    by (simp only: p_def tP)
  also have "\<dots> \<le> E * (P * a)"
    using rounding_units(2) P0 a2 unfolding E_def by (intro mult_right_mono) simp_all
  also have "\<dots> \<le> E * (P * 2)"
    using P0 a2 by (intro mult_left_mono) (simp_all add: E_def)
  finally have p1: "\<bar>p - P * a\<bar> \<le> 2 * E * P" by simp
  have "\<bar>P * a - P\<bar> = P * \<bar>a - 1\<bar>"
  proof -
    have "P * a - P = P * (a - 1)" by (simp add: algebra_simps)
    then show ?thesis using P0 by (simp add: abs_mult)
  qed
  also have "\<dots> \<le> P * (48 * E)" using a P0 by (intro mult_left_mono) simp_all
  finally have p2: "\<bar>P * a - P\<bar> \<le> 48 * E * P" by (simp only: mult_ac)
  from p1 p2 have pP: "\<bar>p - P\<bar> \<le> 50 * E * P" by linarith
  have EP: "E * P \<le> E" using P1 by (simp add: E_def)
  from pP EP have "\<bar>p - P\<bar> \<le> 50 * E" by linarith
  with P0 P1 have "\<bar>1 - p\<bar> \<le> 2" unfolding E_def by linarith
  from binary64_error_bound [OF this] have c: "\<bar>c - (1 - p)\<bar> \<le> 2 * E"
    by (simp add: c_def E_def)
  with \<open>\<bar>1 - p\<bar> \<le> 2\<close> \<open>\<bar>p - P\<bar> \<le> 50 * E\<close> P0 P1 have "\<bar>1 - c\<bar> \<le> 2"
    unfolding E_def by linarith
  from binary64_error_bound [OF this] have d: "\<bar>d - (1 - c)\<bar> \<le> 2 * E"
    by (simp add: d_def E_def)
  have E0: "0 \<le> E" by (simp add: E_def)
  have "4 * E = E * (4 * 1)" by simp
  also have "\<dots> \<le> E * (4 * (10 ^ 6 * P))" using P6 E0 by (intro mult_left_mono) simp_all
  finally have E4: "4 * E \<le> 4000000 * (E * P)" by simp
  from c d pP E4 have dP: "\<bar>d - P\<bar> \<le> 5000000 * (E * P)"
    by linarith
  have kd: "d = P * (1 + k)" using P0 by (simp add: k_def algebra_simps)
  have k: "\<bar>k\<bar> \<le> 5000000 * E"
  proof -
    have "d - P = P * k" using kd by (simp add: algebra_simps)
    then have "P * \<bar>k\<bar> = \<bar>d - P\<bar>" using P0 by (simp add: abs_mult)
    also have "\<dots> \<le> P * (5000000 * E)" using dP by (simp add: mult.commute mult.left_commute)
    finally show ?thesis using P0 by simp
  qed
  then have k2: "\<bar>k\<bar> \<le> 1 / 2" unfolding E_def by linarith
  then have k0: "0 < 1 + k" by linarith
  have d0: "0 < d" unfolding kd using P0 k0 by simp
  have "log 10 d = log 10 P + log 10 (1 + k)"
    unfolding kd using P0 k0 by (simp add: log_mult)
  also have "log 10 P = - Q / 10" by (simp add: P_def)
  finally have ld: "log 10 d = - Q / 10 + log 10 (1 + k)" .
  from log10_near [OF k2] k have lk: "\<bar>log 10 (1 + k)\<bar> \<le> 10000000 * E" by linarith
  with ld Q have "\<bar>log 10 d\<bar> \<le> 7" unfolding E_def by linarith
  have "\<bar>l - log 10 d\<bar> \<le> 2 powr (- 50) * \<bar>log 10 d\<bar>"
    unfolding l_def by (rule lg [OF d0])
  also have "\<dots> \<le> E * \<bar>log 10 d\<bar>"
    using rounding_units(2) unfolding E_def by (intro mult_right_mono) simp_all
  also have "\<dots> \<le> E * 7" using \<open>\<bar>log 10 d\<bar> \<le> 7\<close> E0 by (intro mult_left_mono) simp_all
  finally have l: "\<bar>l - log 10 d\<bar> \<le> 7 * E" by simp
  from l lk ld have lQ: "\<bar>l + Q / 10\<bar> \<le> 10000007 * E" by linarith
  with Q have "\<bar>- 10 * l\<bar> \<le> 70" unfolding E_def by linarith
  from binary64_error_bound [OF this] have r: "\<bar>r - (- 10 * l)\<bar> \<le> 70 * E"
    by (simp add: r_def E_def)
  from r lQ have "\<bar>r - Q\<bar> \<le> 100000140 * E" by linarith
  then have "\<bar>r - of_int q\<bar> < 1 / 2" unfolding E_def Q_def by linarith
  then have "py_round r = q" by (rule py_round_near)
  moreover have "prob_to_phred_binary64 log10 (phred_to_prob_binary64 pow (of_int q)) =
    Inr (py_round r)"
    using d0
    by (simp add: prob_to_phred_binary64_def phred_to_prob_binary64_def Let_def
        r_def l_def d_def c_def p_def t_def Q_def)
  ultimately show ?thesis by simp
qed


lemma binary64_accurate: "\<bar>binary64 y - y\<bar> \<le> 2 powr (- 50) * \<bar>y\<bar>"
proof -
  have "\<bar>binary64 y - y\<bar> \<le> 2 powr (- 53) * \<bar>y\<bar>" by (rule binary64_error)
  also have "\<dots> \<le> 2 powr (- 50) * \<bar>y\<bar>"
    by (intro mult_right_mono powr_mono) simp_all
  finally show ?thesis .
qed

text \<open>
  C2. For every integer phred score \<open>q\<close> with \<open>0 \<le> q \<le> 60\<close>,
  \<^verbatim>\<open>prob_to_phred(phred_to_prob(q))\<close> returns exactly \<open>q\<close> (and raises nothing): in exact
  arithmetic, and in binary64 for every \<open>pow\<close> and \<open>log10\<close> whose relative error is at most
  \<open>2 ^ -50\<close> (four units in the last place), \<open>pow\<close> for exponents between -7 and 7.
\<close>

theorem phred_round_trip:
  assumes "0 \<le> q" "q \<le> 60"
  shows "prob_to_phred (phred_to_prob (of_int q)) = Inr q \<and>
    ((\<forall>x. \<bar>x\<bar> \<le> 7 \<longrightarrow> \<bar>pow 10 x - 10 powr x\<bar> \<le> 2 powr (- 50) * 10 powr x) \<and>
     (\<forall>x. 0 < x \<longrightarrow> \<bar>log10 x - log 10 x\<bar> \<le> 2 powr (- 50) * \<bar>log 10 x\<bar>) \<longrightarrow>
     prob_to_phred_binary64 log10 (phred_to_prob_binary64 pow (of_int q)) = Inr q)"
proof (intro conjI impI)
  show "prob_to_phred (phred_to_prob (of_int q)) = Inr q"
    by (rule prob_to_phred_phred_to_prob)
next
  assume a: "(\<forall>x. \<bar>x\<bar> \<le> 7 \<longrightarrow> \<bar>pow 10 x - 10 powr x\<bar> \<le> 2 powr (- 50) * 10 powr x) \<and>
     (\<forall>x. 0 < x \<longrightarrow> \<bar>log10 x - log 10 x\<bar> \<le> 2 powr (- 50) * \<bar>log 10 x\<bar>)"
  show "prob_to_phred_binary64 log10 (phred_to_prob_binary64 pow (of_int q)) = Inr q"
  proof (rule round_trip_binary64 [OF assms])
    fix x :: real
    assume "\<bar>x\<bar> \<le> 7"
    with a show "\<bar>pow 10 x - 10 powr x\<bar> \<le> 2 powr (- 50) * 10 powr x" by blast
  next
    fix x :: real
    assume "0 < x"
    with a show "\<bar>log10 x - log 10 x\<bar> \<le> 2 powr (- 50) * \<bar>log 10 x\<bar>" by blast
  qed
qed

theorem phred_round_trip_witness:
  "(0::int) \<le> 30 \<and> (30::int) \<le> 60 \<and>
   prob_to_phred (phred_to_prob (of_int 30)) = Inr 30 \<and>
   prob_to_phred_binary64 (\<lambda>x. binary64 (log 10 x))
     (phred_to_prob_binary64 (\<lambda>b x. binary64 (b powr x)) (of_int 30)) = Inr 30"
proof -
  have r: "(0::int) \<le> 30" "(30::int) \<le> 60" by simp_all
  have pw: "\<forall>x::real. \<bar>x\<bar> \<le> 7 \<longrightarrow>
      \<bar>binary64 (10 powr x) - 10 powr x\<bar> \<le> 2 powr (- 50) * 10 powr x"
    using binary64_accurate [of "10 powr x" for x] by simp
  have lg: "\<forall>x::real. 0 < x \<longrightarrow>
      \<bar>binary64 (log 10 x) - log 10 x\<bar> \<le> 2 powr (- 50) * \<bar>log 10 x\<bar>"
    using binary64_accurate by simp
  note t = phred_round_trip [OF r,
      where pow = "\<lambda>b x. binary64 (b powr x)" and ?log10.0 = "\<lambda>x. binary64 (log 10 x)"]
  from t [THEN conjunct2, rule_format, OF conjI [OF pw lg]] t [THEN conjunct1] r
  show ?thesis by (intro conjI)
qed

text \<open>
  C10 (amended). In exact arithmetic \<open>phred_to_prob 0 = 0\<close>, and on \<open>q \<ge> 0\<close> the function
  is strictly increasing with values from 0 up to, but not including, 1. As computed in
  binary64, \<open>phred_to_prob(0)\<close> is 0 (when the power of exponent 0 is 1), the result lies
  between 0 and 1, both included, whenever the power of ten is positive and at most 1, and
  it is exactly 1 whenever that power is at most \<open>2 ^ -54\<close>.
\<close>

theorem phred_to_prob_increasing_bounded:
  "phred_to_prob 0 = 0 \<and>
   (\<forall>q. 0 \<le> q \<longrightarrow> 0 \<le> phred_to_prob q \<and> phred_to_prob q < 1) \<and>
   (\<forall>q1 q2. 0 \<le> q1 \<and> q1 < q2 \<longrightarrow> phred_to_prob q1 < phred_to_prob q2) \<and>
   (\<forall>pow. pow 10 0 = 1 \<longrightarrow> phred_to_prob_binary64 pow 0 = 0) \<and>
   (\<forall>pow q. 0 < pow 10 (binary64 (- q / 10)) \<and> pow 10 (binary64 (- q / 10)) \<le> 1 \<longrightarrow>
      0 \<le> phred_to_prob_binary64 pow q \<and> phred_to_prob_binary64 pow q \<le> 1) \<and>
   (\<forall>pow q. 0 < pow 10 (binary64 (- q / 10)) \<and>
        pow 10 (binary64 (- q / 10)) \<le> 2 powr (- 54) \<longrightarrow>
      phred_to_prob_binary64 pow q = 1)"
proof -
  have b0: "binary64 0 = 0" by (simp add: binary64_def)
  have zero: "phred_to_prob_binary64 pow 0 = 0" if "pow 10 0 = 1" for pow
    unfolding phred_to_prob_binary64_def Let_def using that by (simp add: b0)
  have unit: "0 \<le> phred_to_prob_binary64 pow q \<and> phred_to_prob_binary64 pow q \<le> 1"
    if "0 < pow 10 (binary64 (- q / 10)) \<and> pow 10 (binary64 (- q / 10)) \<le> 1" for pow q
    unfolding phred_to_prob_binary64_def Let_def
    using that by (intro binary64_unit_interval) simp_all
  have one: "phred_to_prob_binary64 pow q = 1"
    if "0 < pow 10 (binary64 (- q / 10)) \<and> pow 10 (binary64 (- q / 10)) \<le> 2 powr (- 54)"
    for pow q
    unfolding phred_to_prob_binary64_def Let_def
    using that by (intro binary64_absorbs) simp_all
  note exact = phred_to_prob_exact
  show ?thesis
  proof (intro conjI)
    show "phred_to_prob 0 = 0" using exact by (rule conjunct1)
    show "\<forall>q. 0 \<le> q \<longrightarrow> 0 \<le> phred_to_prob q \<and> phred_to_prob q < 1"
      using exact by (rule conjunct2 [THEN conjunct1])
    show "\<forall>q1 q2. 0 \<le> q1 \<and> q1 < q2 \<longrightarrow> phred_to_prob q1 < phred_to_prob q2"
      using exact by (rule conjunct2 [THEN conjunct2])
    show "\<forall>pow. pow 10 0 = 1 \<longrightarrow> phred_to_prob_binary64 pow 0 = 0"
      by (intro allI impI) (rule zero)
    show "\<forall>pow q. 0 < pow 10 (binary64 (- q / 10)) \<and> pow 10 (binary64 (- q / 10)) \<le> 1 \<longrightarrow>
        0 \<le> phred_to_prob_binary64 pow q \<and> phred_to_prob_binary64 pow q \<le> 1"
      by (intro allI impI) (rule unit)
    show "\<forall>pow q. 0 < pow 10 (binary64 (- q / 10)) \<and>
        pow 10 (binary64 (- q / 10)) \<le> 2 powr (- 54) \<longrightarrow>
        phred_to_prob_binary64 pow q = 1"
      by (intro allI impI) (rule one)
  qed
qed

theorem phred_to_prob_increasing_bounded_witness:
  "phred_to_prob 0 = 0 \<and> (0::real) \<le> 10 \<and> 0 \<le> phred_to_prob 10 \<and> phred_to_prob 10 < 1 \<and>
   (0::real) < 10 \<and> phred_to_prob 0 < phred_to_prob 10 \<and>
   0 < binary64 (10 powr binary64 (- 200 / 10)) \<and>
   binary64 (10 powr binary64 (- 200 / 10)) \<le> 2 powr (- 54) \<and>
   phred_to_prob_binary64 (\<lambda>b x. binary64 (b powr x)) 200 = 1"
proof -
  note t = phred_to_prob_increasing_bounded
  have r: "binary64 (- 200 / 10) = - 20" using binary64_minus_20 by simp
  have p: "0 < binary64 (10 powr binary64 (- 200 / 10)) \<and>
      binary64 (10 powr binary64 (- 200 / 10)) \<le> 2 powr (- 54)"
    unfolding r by (rule power_at_200)
  have one: "phred_to_prob_binary64 (\<lambda>b x. binary64 (b powr x)) 200 = 1"
    by (rule t [THEN conjunct2, THEN conjunct2, THEN conjunct2, THEN conjunct2, THEN conjunct2,
          rule_format, of "\<lambda>b x. binary64 (b powr x)" 200]) (rule p)
  have z: "phred_to_prob 0 = 0" by (rule t [THEN conjunct1])
  have "(0::real) \<le> 10" by simp
  from t [THEN conjunct2, THEN conjunct1, rule_format, OF this]
  have u: "0 \<le> phred_to_prob 10 \<and> phred_to_prob 10 < 1" .
  have "(0::real) \<le> 0 \<and> (0::real) < 10" by simp
  from t [THEN conjunct2, THEN conjunct2, THEN conjunct1, rule_format, OF this]
  have m: "phred_to_prob 0 < phred_to_prob 10" .
  show ?thesis using one z u m p by simp
qed

text \<open>
  C10 as stated fails on the floats the module computes with: at \<open>q = 200\<close>, with a power
  function that returns the exact power rounded to binary64, the result is exactly 1, so it
  is not below 1.
\<close>

theorem phred_to_prob_saturates_counterexample:
  "phred_to_prob_binary64 (\<lambda>b x. binary64 (b powr x)) 200 = 1 \<and>
   \<not> phred_to_prob_binary64 (\<lambda>b x. binary64 (b powr x)) 200 < 1"
proof -
  have "binary64 (- 200 / 10) = - 20" using binary64_minus_20 by simp
  then have "phred_to_prob_binary64 (\<lambda>b x. binary64 (b powr x)) 200
      = binary64 (1 - binary64 (10 powr (- 20)))"
    by (simp add: phred_to_prob_binary64_def)
  also have "\<dots> = 1" using power_at_200 by (intro binary64_absorbs) simp_all
  finally show ?thesis by simp
qed

section \<open>The heap, the generators and the loops\<close>

subsection \<open>The loop of the basic model\<close>


lemma random_random_heap: "random_random w = (u, w1) \<Longrightarrow> heap w1 = heap w"
  by (auto simp: random_random_def)

lemma random_choice_cases:
  "random_choice xs w = (r, w') \<Longrightarrow>
     heap w' = heap w \<and> (xs = [] \<and> r = Inl IndexError \<or> xs \<noteq> [] \<and> (\<exists>c \<in> set xs. r = Inr c))"
  by (auto simp: random_choice_def split: if_splits)

lemma heap_store: "heap (store a ob w) = (heap w)[a := ob]"
  by (simp add: store_def)

lemma deref_heap_cong: "heap w' = heap w \<Longrightarrow> deref w' a = deref w a"
  by (simp add: deref_def)

lemma deref_update_same: "deref w a = Some ob \<Longrightarrow> heap w' = (heap w)[a := ob'] \<Longrightarrow> deref w' a = Some ob'"
  by (auto simp: deref_def split: if_splits)

lemma deref_update_id: "deref w a = Some ob \<Longrightarrow> (heap w)[a := ob] = heap w"
  by (auto simp: deref_def split: if_splits)

lemma basic_alternatives:
  "map_of basic_nucl_choices nucl = Some alts \<Longrightarrow>
     alts \<noteq> [] \<and> nucl \<notin> set alts \<and> set alts \<subseteq> nucleotides \<and> nucl \<in> nucleotides"
  by (auto simp: basic_nucl_choices_def nucleotides_def split: if_splits)

lemma basic_nucl_choices_defined:
  "nucl \<in> nucleotides \<Longrightarrow> \<exists>alts. map_of basic_nucl_choices nucl = Some alts"
  by (auto simp: basic_nucl_choices_def nucleotides_def)

lemma basic_mut_loop_stop:
  "deref w m = Some (MutableSeq letters) \<Longrightarrow> length letters \<le> pos \<Longrightarrow>
     basic_mut_loop qs pos m w = (Inr (), w)"
  by (cases qs) simp_all

text \<open>One iteration of the basic loop, by cases.\<close>

lemma basic_mut_loop_step:
  assumes "deref w m = Some (MutableSeq letters)" and "pos < length letters"
  obtains
    (keep) w1 where "heap w1 = heap w"
      "\<not> phred_to_prob_binary64 (libm_pow w) (of_int qual) < fst (random_random w)"
      "\<And>tl. basic_mut_loop (qual # tl) pos m w = basic_mut_loop tl (pos + 1) m w1"
  | (key) w1 where "heap w1 = heap w"
      "phred_to_prob_binary64 (libm_pow w) (of_int qual) < fst (random_random w)"
      "map_of basic_nucl_choices (letters ! pos) = None"
      "\<And>tl. basic_mut_loop (qual # tl) pos m w = (Inl KeyError, w1)"
  | (subst) alts c w2 where
      "map_of basic_nucl_choices (letters ! pos) = Some alts" "c \<in> set alts"
      "heap w2 = (heap w)[m := MutableSeq (letters[pos := c])]"
      "phred_to_prob_binary64 (libm_pow w) (of_int qual) < fst (random_random w)"
      "\<And>tl. basic_mut_loop (qual # tl) pos m w = basic_mut_loop tl (pos + 1) m w2"
proof -
  obtain u w1 where r: "random_random w = (u, w1)" by (cases "random_random w")
  have h1: "heap w1 = heap w" using random_random_heap [OF r] .
  show ?thesis
  proof (cases "phred_to_prob_binary64 (libm_pow w) (of_int qual) < u")
    case False
    then show ?thesis using assms r h1 by (intro keep [where ?w1.0=w1]) simp_all
  next
    case True
    show ?thesis
    proof (cases "map_of basic_nucl_choices (letters ! pos)")
      case None
      then show ?thesis using assms r True h1 by (intro key [where ?w1.0=w1]) simp_all
    next
      case (Some alts)
      obtain rc w2 where c: "random_choice alts w1 = (rc, w2)" by (cases "random_choice alts w1")
      from random_choice_cases [OF c] basic_alternatives [OF Some]
      obtain ch where ch: "ch \<in> set alts" "rc = Inr ch" and h2: "heap w2 = heap w1" by auto
      have "heap (store m (MutableSeq (letters[pos := ch])) w2)
          = (heap w)[m := MutableSeq (letters[pos := ch])]"
        using h1 h2 by (simp add: heap_store)
      then show ?thesis using assms r True Some c ch
        by (intro subst [where alts=alts and c=ch
              and ?w2.0="store m (MutableSeq (letters[pos := ch])) w2"]) simp_all
    qed
  qed
qed

text \<open>What the loop leaves behind, whatever its outcome.\<close>

lemma basic_mut_loop_inv:
  assumes "deref w m = Some (MutableSeq letters)"
  shows "\<exists>letters'. heap (snd (basic_mut_loop qs pos m w)) = (heap w)[m := MutableSeq letters'] \<and>
           length letters' = length letters \<and>
           (\<forall>i. i < pos \<or> pos + length qs \<le> i \<longrightarrow> letters' ! i = letters ! i) \<and>
           set letters' \<subseteq> set letters \<union> nucleotides \<and>
           (set letters \<subseteq> nucleotides \<longrightarrow> fst (basic_mut_loop qs pos m w) = Inr ())"
  using assms
proof (induction qs arbitrary: pos w letters)
  case Nil
  have "heap w = (heap w)[m := MutableSeq letters]"
    using deref_update_id [OF Nil] by simp
  then show ?case by auto
next
  case (Cons qual rest)
  let ?run = "basic_mut_loop (qual # rest) pos m w"
  have same: "heap w = (heap w)[m := MutableSeq letters]"
    using deref_update_id [OF Cons.prems] by simp
  show ?case
  proof (cases "pos < length letters")
    case False
    then have "?run = (Inr (), w)"
      by (intro basic_mut_loop_stop [OF Cons.prems]) simp
    then show ?thesis using same by auto
  next
    case True
    from Cons.prems True show ?thesis
    proof (cases rule: basic_mut_loop_step [where qual=qual])
      case (keep w1)
      have d1: "deref w1 m = Some (MutableSeq letters)"
        using deref_heap_cong [OF keep(1)] Cons.prems by simp
      from Cons.IH [OF d1, of "pos + 1"] keep(1) keep(3) [of rest] show ?thesis
        by auto
    next
      case (key w1)
      have "letters ! pos \<notin> nucleotides"
        using key(3) basic_nucl_choices_defined by fastforce
      then have "\<not> set letters \<subseteq> nucleotides" using True by (meson nth_mem subsetD)
      then show ?thesis using key(1) key(4) [of rest] same by auto
    next
      case (subst alts c w2)
      have d2: "deref w2 m = Some (MutableSeq (letters[pos := c]))"
        using deref_update_same [OF Cons.prems subst(3)] .
      have cn: "c \<in> nucleotides" using basic_alternatives [OF subst(1)] subst(2) by auto
      from Cons.IH [OF d2, of "pos + 1"]
      obtain letters' where L:
        "heap (snd (basic_mut_loop rest (pos + 1) m w2)) = (heap w2)[m := MutableSeq letters']"
        "length letters' = length (letters[pos := c])"
        "\<forall>i. i < pos + 1 \<or> pos + 1 + length rest \<le> i \<longrightarrow> letters' ! i = (letters[pos := c]) ! i"
        "set letters' \<subseteq> set (letters[pos := c]) \<union> nucleotides"
        "set (letters[pos := c]) \<subseteq> nucleotides \<longrightarrow> fst (basic_mut_loop rest (pos + 1) m w2) = Inr ()"
        by blast
      have s1: "set (letters[pos := c]) \<subseteq> set letters \<union> nucleotides"
        using cn set_update_subset_insert [of letters pos c] by auto
      have s2: "set letters \<subseteq> nucleotides \<Longrightarrow> set (letters[pos := c]) \<subseteq> nucleotides"
        using cn set_update_subset_insert [of letters pos c] by auto
      have "heap (snd ?run) = (heap w)[m := MutableSeq letters']"
        using L(1) subst(3) subst(5) [of rest] by simp
      moreover have "length letters' = length letters" using L(2) by simp
      moreover have "\<forall>i. i < pos \<or> pos + length (qual # rest) \<le> i \<longrightarrow> letters' ! i = letters ! i"
        using L(3) by (auto simp: nth_list_update)
      moreover have "set letters' \<subseteq> set letters \<union> nucleotides" using L(4) s1 by blast
      moreover have "set letters \<subseteq> nucleotides \<longrightarrow> fst ?run = Inr ()"
        using L(5) s2 subst(5) [of rest] by simp
      ultimately show ?thesis by blast
    qed
  qed
qed

lemma and_then_Inr: "and_then (Inr x, w) f = f x w"
  by (simp add: and_then_def)

lemma and_then_Inl: "and_then (Inl e, w) f = (Inl e, w)"
  by (simp add: and_then_def)

lemma and_then_Inl_fst: "fst r = Inl e \<Longrightarrow> and_then r f = (Inl e, snd r)"
  by (cases r) (simp add: and_then_def)

lemma basic_mut_loop_append:
  assumes "deref w m = Some (MutableSeq letters)"
  shows "basic_mut_loop (xs @ ys) pos m w =
           and_then (basic_mut_loop xs pos m w) (\<lambda>_ w1. basic_mut_loop ys (pos + length xs) m w1)"
  using assms
proof (induction xs arbitrary: pos w letters)
  case Nil
  show ?case by (simp add: and_then_Inr)
next
  case (Cons qual rest)
  show ?case
  proof (cases "pos < length letters")
    case False
    then have "\<And>qs p. pos \<le> p \<Longrightarrow> basic_mut_loop qs p m w = (Inr (), w)"
      by (intro basic_mut_loop_stop [OF Cons.prems]) simp
    then show ?thesis by (simp only: and_then_Inr le_add1 order_refl)
  next
    case True
    from Cons.prems True show ?thesis
    proof (cases rule: basic_mut_loop_step [where qual=qual])
      case (keep w1)
      have d1: "deref w1 m = Some (MutableSeq letters)"
        using deref_heap_cong [OF keep(1)] Cons.prems by simp
      show ?thesis using Cons.IH [OF d1, of "pos + 1"] keep(3) by simp
    next
      case (key w1)
      show ?thesis using key(4) by (simp add: and_then_Inl)
    next
      case (subst alts c w2)
      have d2: "deref w2 m = Some (MutableSeq (letters[pos := c]))"
        using deref_update_same [OF Cons.prems subst(3)] .
      show ?thesis using Cons.IH [OF d2, of "pos + 1"] subst(5) by simp
    qed
  qed
qed

subsection \<open>Drawing with numpy\<close>

lemma np_random_choice_cases:
  "np_random_choice a p w = (r, w') \<Longrightarrow>
     heap w' = heap w \<and> ((\<exists>e. r = Inl e) \<or> (\<exists>c \<in> set a. r = Inr c))"
  by (auto simp: np_random_choice_def Let_def split: if_splits)

lemma unit_float_less_1: "unit_float k < 1"
proof -
  have "k mod 2 ^ 53 < (2::nat) ^ 53" by simp
  then have "real (k mod 2 ^ 53) < 2 ^ 53"
    by (metis of_nat_less_iff of_nat_numeral of_nat_power)
  then show ?thesis by (simp add: unit_float_def)
qed

lemma unit_float_nonneg: "0 \<le> unit_float k"
  by (simp add: unit_float_def)

lemma length_cumsum: "length (cumsum acc xs) = length xs"
  by (induction xs arbitrary: acc) simp_all

lemma last_cumsum_cons: "last (acc # cumsum acc xs) = acc + sum_list xs"
  by (induction xs arbitrary: acc) (simp_all add: add.assoc)

lemma last_cumsum: "xs \<noteq> [] \<Longrightarrow> last (cumsum acc xs) = acc + sum_list xs"
  using last_cumsum_cons [of acc xs] by (cases xs) simp_all

lemma searchsorted_in_range:
  assumes "xs \<noteq> []" and "sum_list xs = 1" and "u < 1"
  shows "length (filter (\<lambda>c. c \<le> u) (cumsum 0 xs)) < length xs"
proof -
  have ne: "cumsum 0 xs \<noteq> []" using assms(1) by (cases xs) simp_all
  have "last (cumsum 0 xs) = 1" using last_cumsum [OF assms(1), of 0] assms(2) by simp
  then have "\<not> last (cumsum 0 xs) \<le> u" using assms(3) by simp
  moreover have "last (cumsum 0 xs) \<in> set (cumsum 0 xs)" using ne by simp
  ultimately have "length (filter (\<lambda>c. c \<le> u) (cumsum 0 xs)) < length (cumsum 0 xs)"
    by (rule_tac length_filter_less)
  then show ?thesis by (simp add: length_cumsum)
qed

lemma sum_list_divide: "sum_list (map (\<lambda>v. v / s) vs) = sum_list vs / (s::real)"
  by (induction vs) (simp_all add: add_divide_distrib)

text \<open>Counts that are not negative and not all zero normalise to a distribution numpy accepts.\<close>

lemma np_random_choice_normalised:
  assumes "a \<noteq> []" and "length vs = length a" and "list_all (\<lambda>c. 0 \<le> c) vs"
    and "0 < sum_list vs"
  shows "\<exists>c w'. np_random_choice a (map (\<lambda>v. np_div v (sum_list vs)) vs) w = (Inr c, w') \<and> c \<in> set a"
proof -
  let ?s = "sum_list vs"
  let ?p = "map (\<lambda>v. np_div v ?s) vs"
  have p: "?p = map (\<lambda>v. Finite (v / ?s)) vs" using assms(4) by (simp add: np_div_def)
  have fv: "map float_val ?p = map (\<lambda>v. v / ?s) vs" by (simp add: p comp_def)
  have fin: "list_all is_finite ?p" by (simp add: p list_all_iff)
  have nonneg: "\<not> list_ex (\<lambda>x. float_val x < 0) ?p"
    using assms(3,4) by (auto simp: p list_ex_iff list_all_iff not_less)
  have one: "sum_list (map float_val ?p) = 1"
    unfolding fv using assms(4) by (simp add: sum_list_divide)
  have ne: "map float_val ?p \<noteq> []" using assms(1,2) by auto
  have "length (filter (\<lambda>c. c \<le> unit_float (np_bits w (np_pos w))) (cumsum 0 (map float_val ?p)))
          < length (map float_val ?p)"
    by (rule searchsorted_in_range [OF ne one unit_float_less_1])
  then have idx: "length (filter (\<lambda>c. c \<le> unit_float (np_bits w (np_pos w))) (cumsum 0 (map float_val ?p)))
          < length a"
    using assms(2) by simp
  then show ?thesis
    using assms(1,2) fin nonneg one
    by (simp add: np_random_choice_def Let_def)
qed


subsection \<open>The loop of the empirical model\<close>

lemma subst_choices_lookup:
  "map_of (subst_matrix_to_choices self row) nucl = Some (alts, probs) \<Longrightarrow>
     alts \<noteq> [] \<and> nucl \<notin> set alts \<and> set alts \<subseteq> nucleotides \<and> nucl \<in> nucleotides"
  by (auto simp: subst_matrix_to_choices_def Let_def nucleotides_def split: if_splits)

lemma list_all_slice: "list_all P xs \<Longrightarrow> list_all P (slice i j xs)"
  unfolding slice_def list_all_iff by (meson in_set_dropD in_set_takeD)

lemma list_all_drop: "list_all P xs \<Longrightarrow> list_all P (drop i xs)"
  unfolding list_all_iff by (meson in_set_dropD)

lemma subst_choices_valid:
  assumes "valid_subst_row row" and "nucl \<in> nucleotides"
  shows "\<exists>alts vs. map_of (subst_matrix_to_choices self row) nucl
             = Some (alts, map (\<lambda>v. np_div v (sum_list vs)) vs) \<and>
           alts \<noteq> [] \<and> length vs = length alts \<and> list_all (\<lambda>c. 0 \<le> c) vs \<and> 0 < sum_list vs"
proof -
  have len: "length row = 16" and nn: "list_all (\<lambda>c. 0 \<le> c) row"
    and pos: "0 < sum_list (slice 1 4 row)" "0 < sum_list (slice 5 8 row)"
      "0 < sum_list (slice 9 12 row)" "0 < sum_list (drop 13 row)"
    using assms(1) by (simp_all add: valid_subst_row_def)
  have l: "length (slice 1 4 row) = 3" "length (slice 5 8 row) = 3" "length (slice 9 12 row) = 3"
    "length (drop 13 row) = 3"
    using len by (simp_all add: slice_def)
  note a = list_all_slice [OF nn] list_all_drop [OF nn]
  consider "nucl = CHR ''A''" | "nucl = CHR ''T''" | "nucl = CHR ''C''" | "nucl = CHR ''G''"
    using assms(2) by (auto simp: nucleotides_def)
  then show ?thesis
  proof cases
    case 1
    have "map_of (subst_matrix_to_choices self row) nucl
        = Some (''TCG'', map (\<lambda>v. np_div v (sum_list (slice 1 4 row))) (slice 1 4 row))"
      by (simp add: 1 subst_matrix_to_choices_def Let_def)
    then show ?thesis using l pos a by (intro exI conjI) (assumption, simp_all)
  next
    case 2
    have "map_of (subst_matrix_to_choices self row) nucl
        = Some (''ACG'', map (\<lambda>v. np_div v (sum_list (slice 5 8 row))) (slice 5 8 row))"
      by (simp add: 2 subst_matrix_to_choices_def Let_def)
    then show ?thesis using l pos a by (intro exI conjI) (assumption, simp_all)
  next
    case 3
    have "map_of (subst_matrix_to_choices self row) nucl
        = Some (''ATG'', map (\<lambda>v. np_div v (sum_list (slice 9 12 row))) (slice 9 12 row))"
      by (simp add: 3 subst_matrix_to_choices_def Let_def)
    then show ?thesis using l pos a by (intro exI conjI) (assumption, simp_all)
  next
    case 4
    have "map_of (subst_matrix_to_choices self row) nucl
        = Some (''ATC'', map (\<lambda>v. np_div v (sum_list (drop 13 row))) (drop 13 row))"
      by (simp add: 4 subst_matrix_to_choices_def Let_def)
    then show ?thesis using l pos a by (intro exI conjI) (assumption, simp_all)
  qed
qed

lemma kde_mut_loop_stop:
  "deref w m = Some (MutableSeq letters) \<Longrightarrow> length letters \<le> pos \<Longrightarrow>
     kde_mut_loop self sm qs pos m w = (Inr (), w)"
  by (cases qs) simp_all

lemma kde_mut_loop_step:
  assumes "deref w m = Some (MutableSeq letters)" and "pos < length letters"
  obtains
    (unbound) "sm = None"
      "\<And>tl. kde_mut_loop self sm (qual # tl) pos m w = (Inl UnboundLocalError, w)"
  | (index) matrix where "sm = Some matrix" "\<not> pos < length matrix"
      "\<And>tl. kde_mut_loop self sm (qual # tl) pos m w = (Inl IndexError, w)"
  | (keep) w1 where "heap w1 = heap w" "w1 = snd (random_random w)"
      "\<not> phred_to_prob_binary64 (libm_pow w) (of_int qual) < fst (random_random w)"
      "\<And>tl. kde_mut_loop self sm (qual # tl) pos m w = kde_mut_loop self sm tl (pos + 1) m w1"
  | (key) matrix w1 where "sm = Some matrix" "pos < length matrix" "heap w1 = heap w"
      "phred_to_prob_binary64 (libm_pow w) (of_int qual) < fst (random_random w)"
      "map_of (subst_matrix_to_choices self (matrix ! pos)) (letters ! pos) = None"
      "\<And>tl. kde_mut_loop self sm (qual # tl) pos m w = (Inl KeyError, w1)"
  | (fail) matrix alts probs e w1 where "sm = Some matrix" "pos < length matrix" "heap w1 = heap w"
      "phred_to_prob_binary64 (libm_pow w) (of_int qual) < fst (random_random w)"
      "map_of (subst_matrix_to_choices self (matrix ! pos)) (letters ! pos) = Some (alts, probs)"
      "np_random_choice alts probs (snd (random_random w)) = (Inl e, w1)"
      "\<And>tl. kde_mut_loop self sm (qual # tl) pos m w = (Inl e, w1)"
  | (subst) matrix alts probs c w2 where "sm = Some matrix" "pos < length matrix"
      "map_of (subst_matrix_to_choices self (matrix ! pos)) (letters ! pos) = Some (alts, probs)"
      "c \<in> set alts"
      "heap w2 = (heap w)[m := MutableSeq (letters[pos := c])]"
      "phred_to_prob_binary64 (libm_pow w) (of_int qual) < fst (random_random w)"
      "\<And>tl. kde_mut_loop self sm (qual # tl) pos m w = kde_mut_loop self sm tl (pos + 1) m w2"
proof (cases sm)
  case None
  then show ?thesis using assms by (intro unbound) simp_all
next
  case (Some matrix)
  show ?thesis
  proof (cases "pos < length matrix")
    case False
    then show ?thesis using assms Some by (intro index [where matrix=matrix]) simp_all
  next
    case inside: True
    obtain u w1 where r: "random_random w = (u, w1)" by (cases "random_random w")
    have h1: "heap w1 = heap w" using random_random_heap [OF r] .
    show ?thesis
    proof (cases "phred_to_prob_binary64 (libm_pow w) (of_int qual) < u")
      case False
      then show ?thesis using assms Some inside r h1 by (intro keep [where ?w1.0=w1]) simp_all
    next
      case True
      show ?thesis
      proof (cases "map_of (subst_matrix_to_choices self (matrix ! pos)) (letters ! pos)")
        case None
        then show ?thesis using assms \<open>sm = Some matrix\<close> inside r True h1
          by (intro key [where matrix=matrix and ?w1.0=w1]) simp_all
      next
        case found: (Some ap)
        obtain alts probs where ap: "ap = (alts, probs)" by (cases ap)
        obtain rc w2 where c: "np_random_choice alts probs w1 = (rc, w2)"
          by (cases "np_random_choice alts probs w1")
        from np_random_choice_cases [OF c]
        have h2: "heap w2 = heap w1" and rc: "(\<exists>e. rc = Inl e) \<or> (\<exists>ch \<in> set alts. rc = Inr ch)"
          by auto
        from rc show ?thesis
        proof
          assume "\<exists>e. rc = Inl e"
          then obtain e where e: "rc = Inl e" ..
          show ?thesis using assms \<open>sm = Some matrix\<close> inside r True found ap c h1 h2 e
            by (intro fail [where matrix=matrix and alts=alts and probs=probs and e=e and ?w1.0=w2]) simp_all
        next
          assume "\<exists>ch \<in> set alts. rc = Inr ch"
          then obtain ch where ch: "ch \<in> set alts" "rc = Inr ch" by blast
          have "heap (store m (MutableSeq (letters[pos := ch])) w2)
              = (heap w)[m := MutableSeq (letters[pos := ch])]"
            using h1 h2 by (simp add: heap_store)
          then show ?thesis using assms \<open>sm = Some matrix\<close> inside r True found ap c ch
            by (intro subst [where matrix=matrix and alts=alts and probs=probs and c=ch
                and ?w2.0="store m (MutableSeq (letters[pos := ch])) w2"])
              simp_all
        qed
      qed
    qed
  qed
qed


lemma kde_mut_loop_inv:
  assumes "deref w m = Some (MutableSeq letters)"
  shows "\<exists>letters'. heap (snd (kde_mut_loop self sm qs pos m w)) = (heap w)[m := MutableSeq letters'] \<and>
           length letters' = length letters \<and>
           (\<forall>i. i < pos \<or> pos + length qs \<le> i \<longrightarrow> letters' ! i = letters ! i) \<and>
           set letters' \<subseteq> set letters \<union> nucleotides \<and>
           (set letters \<subseteq> nucleotides \<and> valid_subst_matrix sm (length letters) \<longrightarrow>
              fst (kde_mut_loop self sm qs pos m w) = Inr ())"
  using assms
proof (induction qs arbitrary: pos w letters)
  case Nil
  have "heap w = (heap w)[m := MutableSeq letters]"
    using deref_update_id [OF Nil] by simp
  then show ?case by auto
next
  case (Cons qual rest)
  let ?run = "kde_mut_loop self sm (qual # rest) pos m w"
  have same: "heap w = (heap w)[m := MutableSeq letters]"
    using deref_update_id [OF Cons.prems] by simp
  show ?case
  proof (cases "pos < length letters")
    case False
    then have "?run = (Inr (), w)"
      by (intro kde_mut_loop_stop [OF Cons.prems]) simp
    then show ?thesis using same by auto
  next
    case True
    from Cons.prems True show ?thesis
    proof (cases rule: kde_mut_loop_step [where sm=sm and self=self and qual=qual])
      case unbound
      then have "\<not> valid_subst_matrix sm (length letters)" by (simp add: valid_subst_matrix_def)
      then show ?thesis using unbound(2) [of rest] same by auto
    next
      case (index matrix)
      then have "\<not> valid_subst_matrix sm (length letters)"
        using True by (simp add: valid_subst_matrix_def)
      then show ?thesis using index(3) [of rest] same by auto
    next
      case (keep w1)
      have d1: "deref w1 m = Some (MutableSeq letters)"
        using deref_heap_cong [OF keep(1)] Cons.prems by simp
      from Cons.IH [OF d1, of "pos + 1"] keep(1) keep(4) [of rest] show ?thesis
        by auto
    next
      case (key matrix w1)
      have "letters ! pos \<notin> nucleotides"
      proof
        assume n: "letters ! pos \<in> nucleotides"
        have "map_of (subst_matrix_to_choices self (matrix ! pos)) (letters ! pos) \<noteq> None"
          using n by (auto simp: subst_matrix_to_choices_def Let_def nucleotides_def)
        then show False using key(5) by simp
      qed
      then have "\<not> set letters \<subseteq> nucleotides" using True by (meson nth_mem subsetD)
      then show ?thesis using key(3) key(6) [of rest] same by auto
    next
      case (fail matrix alts probs e w1)
      have "\<not> (set letters \<subseteq> nucleotides \<and> valid_subst_matrix sm (length letters))"
      proof
        assume v: "set letters \<subseteq> nucleotides \<and> valid_subst_matrix sm (length letters)"
        then have n: "letters ! pos \<in> nucleotides" using True by (meson nth_mem subsetD)
        have "valid_subst_row (matrix ! pos)"
          using v fail(1,2) by (simp add: valid_subst_matrix_def list_all_length)
        from subst_choices_valid [OF this n, of self]
        obtain alts' vs where f: "map_of (subst_matrix_to_choices self (matrix ! pos)) (letters ! pos)
             = Some (alts', map (\<lambda>v. np_div v (sum_list vs)) vs)"
          and ok: "alts' \<noteq> []" "length vs = length alts'" "list_all (\<lambda>c. 0 \<le> c) vs" "0 < sum_list vs"
          by blast
        from np_random_choice_normalised [OF ok, of "snd (random_random w)"] fail(5,6) f
        show False by auto
      qed
      then show ?thesis using fail(3) fail(7) [of rest] same by auto
    next
      case (subst matrix alts probs c w2)
      have d2: "deref w2 m = Some (MutableSeq (letters[pos := c]))"
        using deref_update_same [OF Cons.prems subst(5)] .
      have cn: "c \<in> nucleotides" using subst_choices_lookup [OF subst(3)] subst(4) by auto
      from Cons.IH [OF d2, of "pos + 1"]
      obtain letters' where L:
        "heap (snd (kde_mut_loop self sm rest (pos + 1) m w2)) = (heap w2)[m := MutableSeq letters']"
        "length letters' = length (letters[pos := c])"
        "\<forall>i. i < pos + 1 \<or> pos + 1 + length rest \<le> i \<longrightarrow> letters' ! i = (letters[pos := c]) ! i"
        "set letters' \<subseteq> set (letters[pos := c]) \<union> nucleotides"
        "set (letters[pos := c]) \<subseteq> nucleotides \<and> valid_subst_matrix sm (length (letters[pos := c]))
           \<longrightarrow> fst (kde_mut_loop self sm rest (pos + 1) m w2) = Inr ()"
        by blast
      have s1: "set (letters[pos := c]) \<subseteq> set letters \<union> nucleotides"
        using cn set_update_subset_insert [of letters pos c] by auto
      have s2: "set letters \<subseteq> nucleotides \<Longrightarrow> set (letters[pos := c]) \<subseteq> nucleotides"
        using cn set_update_subset_insert [of letters pos c] by auto
      have "heap (snd ?run) = (heap w)[m := MutableSeq letters']"
        using L(1) subst(5) subst(7) [of rest] by simp
      moreover have "length letters' = length letters" using L(2) by simp
      moreover have "\<forall>i. i < pos \<or> pos + length (qual # rest) \<le> i \<longrightarrow> letters' ! i = letters ! i"
        using L(3) by (auto simp: nth_list_update)
      moreover have "set letters' \<subseteq> set letters \<union> nucleotides" using L(4) s1 by blast
      moreover have "set letters \<subseteq> nucleotides \<and> valid_subst_matrix sm (length letters)
          \<longrightarrow> fst ?run = Inr ()"
        using L(5) s2 subst(7) [of rest] by simp
      ultimately show ?thesis by blast
    qed
  qed
qed

lemma kde_mut_loop_append:
  assumes "deref w m = Some (MutableSeq letters)"
  shows "kde_mut_loop self sm (xs @ ys) pos m w =
           and_then (kde_mut_loop self sm xs pos m w)
             (\<lambda>_ w1. kde_mut_loop self sm ys (pos + length xs) m w1)"
  using assms
proof (induction xs arbitrary: pos w letters)
  case Nil
  show ?case by (simp add: and_then_Inr)
next
  case (Cons qual rest)
  show ?case
  proof (cases "pos < length letters")
    case False
    then have "\<And>qs p. pos \<le> p \<Longrightarrow> kde_mut_loop self sm qs p m w = (Inr (), w)"
      by (intro kde_mut_loop_stop [OF Cons.prems]) simp
    then show ?thesis by (simp only: and_then_Inr le_add1 order_refl)
  next
    case True
    from Cons.prems True show ?thesis
    proof (cases rule: kde_mut_loop_step [where sm=sm and self=self and qual=qual])
      case unbound
      show ?thesis using unbound(2) by (simp add: and_then_Inl)
    next
      case (index matrix)
      show ?thesis using index(3) by (simp add: and_then_Inl)
    next
      case (keep w1)
      have d1: "deref w1 m = Some (MutableSeq letters)"
        using deref_heap_cong [OF keep(1)] Cons.prems by simp
      show ?thesis using Cons.IH [OF d1, of "pos + 1"] keep(4) by simp
    next
      case (key matrix w1)
      show ?thesis using key(6) by (simp add: and_then_Inl)
    next
      case (fail matrix alts probs e w1)
      show ?thesis using fail(7) by (simp add: and_then_Inl)
    next
      case (subst matrix alts probs c w2)
      have d2: "deref w2 m = Some (MutableSeq (letters[pos := c]))"
        using deref_update_same [OF Cons.prems subst(5)] .
      show ?thesis using Cons.IH [OF d2, of "pos + 1"] subst(7) by simp
    qed
  qed
qed

subsection \<open>The calls around the loops\<close>

lemma tomutable_Seq:
  "deref w a = Some (Seq s) \<Longrightarrow>
     tomutable a w = (Inr (length (heap w)), w\<lparr>heap := heap w @ [MutableSeq s]\<rparr>)"
  by (simp add: tomutable_def alloc_def)

lemma tomutable_other:
  "\<forall>s. deref w a \<noteq> Some (Seq s) \<Longrightarrow> tomutable a w = (Inl AttributeError, w)"
  by (auto simp: tomutable_def split: option.splits pyobj.splits)

lemma toseq_MutableSeq:
  "deref w m = Some (MutableSeq s) \<Longrightarrow>
     toseq m w = (Inr (length (heap w)), w\<lparr>heap := heap w @ [Seq s]\<rparr>)"
  by (simp add: toseq_def alloc_def)

lemma annotations_getitem_world: "snd (annotations_getitem a k w) = w"
  by (simp add: annotations_getitem_def split: option.splits pyobj.splits)

lemma annotations_getitem_found:
  "deref w a = Some (RestrictedDict n al) \<Longrightarrow> map_of al k = Some v \<Longrightarrow>
     annotations_getitem a k w = (Inr v, w)"
  by (simp add: annotations_getitem_def)

lemma annotations_getitem_heap_cong:
  "deref w' a = deref w a \<Longrightarrow>
     fst (annotations_getitem a k w') = fst (annotations_getitem a k w)"
  by (simp add: annotations_getitem_def split: option.splits pyobj.splits)

lemma deref_append: "a < length (heap w) \<Longrightarrow> heap w' = heap w @ obs \<Longrightarrow> deref w' a = deref w a"
  by (simp add: deref_def nth_append)

lemma deref_Some_less: "deref w a = Some ob \<Longrightarrow> a < length (heap w)"
  by (simp add: deref_def split: if_splits)

lemma deref_new: "heap w' = heap w @ [ob] \<Longrightarrow> deref w' (length (heap w)) = Some ob"
  by (simp add: deref_def)

lemma annotations_getitem_after_copy:
  assumes "heap w1 = heap w @ [MutableSeq s]"
  shows "fst (annotations_getitem a k w1) = fst (annotations_getitem a k w)"
proof (cases "a < length (heap w)")
  case True
  then show ?thesis
    using deref_append [OF True assms] by (rule_tac annotations_getitem_heap_cong)
next
  case False
  then have "deref w a = None" by (simp add: deref_def)
  moreover have "deref w1 a = None \<or> deref w1 a = Some (MutableSeq s)"
    using False assms by (auto simp: deref_def nth_append)
  ultimately show ?thesis by (auto simp: annotations_getitem_def)
qed

text \<open>
  What a call of \<open>mut_sequence\<close> can do to the heap: nothing, or append the mutable copy,
  or append the mutable copy and the sequence it returns.
\<close>

lemma basic_mut_sequence_outcome:
  obtains
    (no_seq) "\<forall>s. deref w (seq record) \<noteq> Some (Seq s)"
      "basic_mut_sequence self record orientation w = (Inl AttributeError, w)"
  | (raised) s s' e w' where "deref w (seq record) = Some (Seq s)"
      "basic_mut_sequence self record orientation w = (Inl e, w')"
      "heap w' = heap w @ [MutableSeq s']" "length s' = length s"
      "(\<exists>ql. fst (annotations_getitem (letter_annotations record) ''phred_quality'' w) = Inr ql)
         \<Longrightarrow> \<not> set s \<subseteq> nucleotides"
  | (returned) s s' w' where "deref w (seq record) = Some (Seq s)"
      "basic_mut_sequence self record orientation w = (Inr (Suc (length (heap w))), w')"
      "heap w' = heap w @ [MutableSeq s', Seq s']" "length s' = length s"
      "set s' \<subseteq> set s \<union> nucleotides"
proof (cases "\<exists>s. deref w (seq record) = Some (Seq s)")
  case False
  then show ?thesis
    by (intro no_seq) (simp_all add: basic_mut_sequence_def tomutable_other and_then_Inl)
next
  case True
  then obtain s where s: "deref w (seq record) = Some (Seq s)" ..
  define m where "m = length (heap w)"
  define w1 where "w1 = w\<lparr>heap := heap w @ [MutableSeq s]\<rparr>"
  have h1: "heap w1 = heap w @ [MutableSeq s]" by (simp add: w1_def)
  have tm: "tomutable (seq record) w = (Inr m, w1)"
    using tomutable_Seq [OF s] by (simp add: m_def w1_def)
  have d1: "deref w1 m = Some (MutableSeq s)" unfolding m_def by (rule deref_new [OF h1])
  obtain rq where g: "annotations_getitem (letter_annotations record) ''phred_quality'' w1 = (rq, w1)"
    using annotations_getitem_world [of "letter_annotations record" "''phred_quality''" w1]
    by (cases "annotations_getitem (letter_annotations record) ''phred_quality'' w1") simp
  have rq: "fst (annotations_getitem (letter_annotations record) ''phred_quality'' w) = rq"
    using annotations_getitem_after_copy [OF h1, of "letter_annotations record" "''phred_quality''"] g
    by simp
  show ?thesis
  proof (cases rq)
    case (Inl e)
    have "basic_mut_sequence self record orientation w = (Inl e, w1)"
      by (simp add: basic_mut_sequence_def tm g Inl and_then_Inr and_then_Inl)
    then show ?thesis using s h1 rq Inl
      by (intro raised [where s=s and s'=s and e=e and w'=w1]) simp_all
  next
    case (Inr quality_list)
    obtain rl w3 where l: "basic_mut_loop quality_list 0 m w1 = (rl, w3)"
      by (cases "basic_mut_loop quality_list 0 m w1")
    from basic_mut_loop_inv [OF d1, of quality_list 0] l
    obtain s' where L: "heap w3 = (heap w1)[m := MutableSeq s']" "length s' = length s"
      "set s' \<subseteq> set s \<union> nucleotides" "set s \<subseteq> nucleotides \<longrightarrow> rl = Inr ()"
      by auto
    have h3: "heap w3 = heap w @ [MutableSeq s']" using L(1) by (simp add: h1 m_def)
    have d3: "deref w3 m = Some (MutableSeq s')" unfolding m_def by (rule deref_new [OF h3])
    have run: "basic_mut_sequence self record orientation w
        = and_then (rl, w3) (\<lambda>_ w3. toseq m w3)"
      by (simp add: basic_mut_sequence_def tm g Inr l and_then_Inr)
    show ?thesis
    proof (cases rl)
      case (Inl e)
      then show ?thesis using s run h3 L(2,4)
        by (intro raised [where s=s and s'=s' and e=e and w'=w3]) (auto simp: and_then_Inl)
    next
      case ok: (Inr u)
      have "basic_mut_sequence self record orientation w
          = (Inr (Suc (length (heap w))), w3\<lparr>heap := heap w3 @ [Seq s']\<rparr>)"
        using run ok toseq_MutableSeq [OF d3] h3 by (simp add: and_then_Inr)
      then show ?thesis using s h3 L(2,3)
        by (intro returned [where s=s and s'=s' and w'="w3\<lparr>heap := heap w3 @ [Seq s']\<rparr>"]) simp_all
    qed
  qed
qed

text \<open>The substitution matrix \<open>mut_sequence\<close> of the empirical model binds for an orientation.\<close>

lemma kde_mut_sequence_outcome:
  fixes self :: KernelDensityErrorModel and orientation :: string
  defines "sm \<equiv> (if orientation = ''forward'' then Some (subst_matrix_forward self)
                  else if orientation = ''reverse'' then Some (subst_matrix_reverse self)
                  else None)"
  obtains
    (no_seq) w' where "\<forall>s. deref w (seq record) \<noteq> Some (Seq s)"
      "kde_mut_sequence self record orientation w = (Inl AttributeError, w')" "heap w' = heap w"
  | (raised) s s' e w' where "deref w (seq record) = Some (Seq s)"
      "kde_mut_sequence self record orientation w = (Inl e, w')"
      "heap w' = heap w @ [MutableSeq s']" "length s' = length s"
      "(\<exists>ql. fst (annotations_getitem (letter_annotations record) ''phred_quality'' w) = Inr ql)
         \<Longrightarrow> \<not> (set s \<subseteq> nucleotides \<and> valid_subst_matrix sm (length s))"
  | (returned) s s' w' where "deref w (seq record) = Some (Seq s)"
      "kde_mut_sequence self record orientation w = (Inr (Suc (length (heap w))), w')"
      "heap w' = heap w @ [MutableSeq s', Seq s']" "length s' = length s"
      "set s' \<subseteq> set s \<union> nucleotides"
proof -
  define w0 where "w0 = (if orientation = ''forward'' \<or> orientation = ''reverse'' then w
                          else py_print ''this is bad'' w)"
  have h0: "heap w0 = heap w" by (simp add: w0_def py_print_def)
  have unfold: "kde_mut_sequence self record orientation w =
      and_then (tomutable (seq record) w0)
        (\<lambda>mutable_seq w1.
           and_then (annotations_getitem (letter_annotations record) ''phred_quality'' w1)
             (\<lambda>quality_list w2.
                and_then (kde_mut_loop self sm quality_list 0 mutable_seq w2)
                  (\<lambda>_ w3. toseq mutable_seq w3)))"
    by (simp add: kde_mut_sequence_def sm_def w0_def)
  have d0: "deref w0 a = deref w a" for a by (rule deref_heap_cong [OF h0])
  show ?thesis
  proof (cases "\<exists>s. deref w (seq record) = Some (Seq s)")
    case False
    then have "kde_mut_sequence self record orientation w = (Inl AttributeError, w0)"
      by (simp add: unfold tomutable_other d0 and_then_Inl)
    then show ?thesis using False h0 by (intro no_seq [where w'=w0]) simp_all
  next
    case True
    then obtain s where s: "deref w (seq record) = Some (Seq s)" ..
    have s0: "deref w0 (seq record) = Some (Seq s)" using s d0 by simp
    define m where "m = length (heap w)"
    define w1 where "w1 = w0\<lparr>heap := heap w0 @ [MutableSeq s]\<rparr>"
    have h1: "heap w1 = heap w @ [MutableSeq s]" by (simp add: w1_def h0)
    have tm: "tomutable (seq record) w0 = (Inr m, w1)"
      using tomutable_Seq [OF s0] by (simp add: m_def w1_def h0)
    have d1: "deref w1 m = Some (MutableSeq s)" unfolding m_def by (rule deref_new [OF h1])
    obtain rq where g: "annotations_getitem (letter_annotations record) ''phred_quality'' w1 = (rq, w1)"
      using annotations_getitem_world [of "letter_annotations record" "''phred_quality''" w1]
      by (cases "annotations_getitem (letter_annotations record) ''phred_quality'' w1") simp
    have rq: "fst (annotations_getitem (letter_annotations record) ''phred_quality'' w) = rq"
      using annotations_getitem_after_copy [OF h1, of "letter_annotations record" "''phred_quality''"] g
      by simp
    show ?thesis
    proof (cases rq)
      case (Inl e)
      have "kde_mut_sequence self record orientation w = (Inl e, w1)"
        by (simp add: unfold tm g Inl and_then_Inr and_then_Inl)
      then show ?thesis using s h1 rq Inl
        by (intro raised [where s=s and s'=s and e=e and w'=w1]) simp_all
    next
      case (Inr quality_list)
      obtain rl w3 where l: "kde_mut_loop self sm quality_list 0 m w1 = (rl, w3)"
        by (cases "kde_mut_loop self sm quality_list 0 m w1")
      from kde_mut_loop_inv [OF d1, of self sm quality_list 0] l
      obtain s' where L: "heap w3 = (heap w1)[m := MutableSeq s']" "length s' = length s"
        "set s' \<subseteq> set s \<union> nucleotides"
        "set s \<subseteq> nucleotides \<and> valid_subst_matrix sm (length s) \<longrightarrow> rl = Inr ()"
        by auto
      have h3: "heap w3 = heap w @ [MutableSeq s']" using L(1) by (simp add: h1 m_def)
      have d3: "deref w3 m = Some (MutableSeq s')" unfolding m_def by (rule deref_new [OF h3])
      have run: "kde_mut_sequence self record orientation w
          = and_then (rl, w3) (\<lambda>_ w3. toseq m w3)"
        by (simp add: unfold tm g Inr l and_then_Inr)
      show ?thesis
      proof (cases rl)
        case (Inl e)
        then show ?thesis using s run h3 L(2,4)
          by (intro raised [where s=s and s'=s' and e=e and w'=w3]) (auto simp: and_then_Inl)
      next
        case ok: (Inr u)
        have "kde_mut_sequence self record orientation w
            = (Inr (Suc (length (heap w))), w3\<lparr>heap := heap w3 @ [Seq s']\<rparr>)"
          using run ok toseq_MutableSeq [OF d3] h3 by (simp add: and_then_Inr)
        then show ?thesis using s h3 L(2,3)
          by (intro returned [where s=s and s'=s' and w'="w3\<lparr>heap := heap w3 @ [Seq s']\<rparr>"])
            simp_all
      qed
    qed
  qed
qed

section \<open>Properties of mut_sequence\<close>

subsection \<open>Length, alphabet and frame\<close>

lemma deref_in_appended:
  "heap w' = heap w @ obs \<Longrightarrow> i < length obs \<Longrightarrow> deref w' (length (heap w) + i) = Some (obs ! i)"
  by (simp add: deref_def nth_append)

lemma example_row_valid: "valid_subst_row example_row"
  by (simp add: valid_subst_row_def example_row_def slice_def)

lemma example_matrix_valid:
  "valid_subst_matrix (Some (subst_matrix_forward example_model)) (length ''ACGT'')"
  by (simp add: valid_subst_matrix_def example_model_def KernelDensityErrorModel_init_def
      example_profile_def example_row_valid list_all_length)

lemma example_world_facts:
  "deref example_world (seq example_record) = Some (Seq ''ACGT'')"
  "deref example_world (letter_annotations example_record)
     = Some (RestrictedDict 4 [(''phred_quality'', [0, 0, 0, 0])])"
  "set ''ACGT'' \<subseteq> nucleotides"
  by (auto simp: example_world_def example_record_def deref_def nucleotides_def)

text \<open>
  C5. For both models, when the record's sequence is over A, T, C, G and the record has
  quality scores, the sequence \<open>mut_sequence\<close> returns has the length of the input and is
  over A, T, C, G. The basic model always returns; the empirical model returns whenever the
  orientation is \<open>forward\<close> or \<open>reverse\<close> and the matrix for it has a valid row for every
  position of the sequence.
\<close>

theorem mut_sequence_length_alphabet:
  assumes "deref w (seq record) = Some (Seq s)" and "set s \<subseteq> nucleotides"
    and "deref w (letter_annotations record) = Some (RestrictedDict n al)"
    and "map_of al ''phred_quality'' = Some quality_list"
    and "length quality_list = length s"
  shows "(\<exists>r w' s'. basic_mut_sequence bself record orientation w = (Inr r, w') \<and>
            deref w' r = Some (Seq s') \<and> length s' = length s \<and> set s' \<subseteq> nucleotides) \<and>
         (\<forall>r w'. kde_mut_sequence kself record orientation w = (Inr r, w') \<longrightarrow>
            (\<exists>s'. deref w' r = Some (Seq s') \<and> length s' = length s \<and> set s' \<subseteq> nucleotides)) \<and>
         (orientation = ''forward'' \<and>
            valid_subst_matrix (Some (subst_matrix_forward kself)) (length s) \<or>
          orientation = ''reverse'' \<and>
            valid_subst_matrix (Some (subst_matrix_reverse kself)) (length s) \<longrightarrow>
            (\<exists>r w'. kde_mut_sequence kself record orientation w = (Inr r, w')))"
proof -
  have q: "\<exists>ql. fst (annotations_getitem (letter_annotations record) ''phred_quality'' w) = Inr ql"
    using annotations_getitem_found [OF assms(3,4)] by simp
  have new: "deref w' (Suc (length (heap w))) = Some (Seq s')"
    if "heap w' = heap w @ [MutableSeq s', Seq s']" for w' s'
    using deref_in_appended [OF that, of 1] by simp
  have basic: "\<exists>r w' s'. basic_mut_sequence bself record orientation w = (Inr r, w') \<and>
      deref w' r = Some (Seq s') \<and> length s' = length s \<and> set s' \<subseteq> nucleotides"
  proof (cases rule: basic_mut_sequence_outcome [of w "record" bself orientation])
    case no_seq
    then show ?thesis using assms(1) by simp
  next
    case (raised s0 s' e w')
    then show ?thesis using assms(1,2) q by simp
  next
    case (returned s0 s' w')
    then have "s0 = s" using assms(1) by simp
    then show ?thesis using returned new [OF returned(3)] assms(2) by blast
  qed
  have kde: "\<exists>s'. deref w' r = Some (Seq s') \<and> length s' = length s \<and> set s' \<subseteq> nucleotides"
    if run: "kde_mut_sequence kself record orientation w = (Inr r, w')" for r w'
  proof (cases rule: kde_mut_sequence_outcome [of w "record" kself orientation])
    case (no_seq w')
    then show ?thesis using run by simp
  next
    case (raised s0 s' e w')
    then show ?thesis using run by simp
  next
    case (returned s0 s' w'')
    then have "s0 = s" "w'' = w'" "r = Suc (length (heap w))" using assms(1) run by simp_all
    then show ?thesis using returned new [OF returned(3)] assms(2) by blast
  qed
  have total: "\<exists>r w'. kde_mut_sequence kself record orientation w = (Inr r, w')"
    if v: "orientation = ''forward'' \<and>
            valid_subst_matrix (Some (subst_matrix_forward kself)) (length s) \<or>
          orientation = ''reverse'' \<and>
            valid_subst_matrix (Some (subst_matrix_reverse kself)) (length s)"
  proof (cases rule: kde_mut_sequence_outcome [of w "record" kself orientation])
    case (no_seq w')
    then show ?thesis using assms(1) by simp
  next
    case (raised s0 s' e w')
    then have "s0 = s" using assms(1) by simp
    then show ?thesis using raised(5) q assms(2) v by auto
  next
    case (returned s0 s' w'')
    then show ?thesis by blast
  qed
  show ?thesis using basic kde total by blast
qed

theorem mut_sequence_length_alphabet_witness:
  "(\<exists>r w' s'. basic_mut_sequence BasicErrorModel_init example_record ''forward'' example_world
        = (Inr r, w') \<and>
      deref w' r = Some (Seq s') \<and> length s' = length ''ACGT'' \<and> set s' \<subseteq> nucleotides) \<and>
   (\<exists>r w'. kde_mut_sequence example_model example_record ''forward'' example_world = (Inr r, w'))"
proof -
  have len: "length [0, 0, 0, 0 :: int] = length ''ACGT''" by simp
  have m: "map_of [(''phred_quality'', [0, 0, 0, 0 :: int])] ''phred_quality'' = Some [0, 0, 0, 0]"
    by simp
  note v = example_matrix_valid
  from mut_sequence_length_alphabet [OF example_world_facts(1) example_world_facts(3)
      example_world_facts(2) m len, of BasicErrorModel_init "''forward''" example_model] v
  show ?thesis by blast
qed

text \<open>
  C9. For both models, \<open>mut_sequence\<close> leaves every object that existed before the call as it
  was, whether it returns or raises: the letters are written to a fresh mutable copy, and
  the sequence returned is a new object. In particular the record's sequence and its
  annotations are unchanged.
\<close>

theorem mut_sequence_frame:
  "take (length (heap w)) (heap (snd (basic_mut_sequence bself record orientation w))) = heap w \<and>
   take (length (heap w)) (heap (snd (kde_mut_sequence kself record orientation w))) = heap w \<and>
   (\<forall>a. a < length (heap w) \<longrightarrow>
      deref (snd (basic_mut_sequence bself record orientation w)) a = deref w a \<and>
      deref (snd (kde_mut_sequence kself record orientation w)) a = deref w a) \<and>
   (\<forall>r. fst (basic_mut_sequence bself record orientation w) = Inr r \<or>
        fst (kde_mut_sequence kself record orientation w) = Inr r \<longrightarrow> length (heap w) < r)"
proof -
  have b: "\<exists>obs. heap (snd (basic_mut_sequence bself record orientation w)) = heap w @ obs \<and>
      (\<forall>r. fst (basic_mut_sequence bself record orientation w) = Inr r \<longrightarrow> length (heap w) < r)"
  proof (cases rule: basic_mut_sequence_outcome [of w "record" bself orientation])
    case no_seq
    then show ?thesis by simp
  next
    case (raised s s' e w')
    then show ?thesis by simp
  next
    case (returned s s' w')
    then show ?thesis by simp
  qed
  have k: "\<exists>obs. heap (snd (kde_mut_sequence kself record orientation w)) = heap w @ obs \<and>
      (\<forall>r. fst (kde_mut_sequence kself record orientation w) = Inr r \<longrightarrow> length (heap w) < r)"
  proof (cases rule: kde_mut_sequence_outcome [of w "record" kself orientation])
    case (no_seq w')
    then show ?thesis by simp
  next
    case (raised s s' e w')
    then show ?thesis by simp
  next
    case (returned s s' w')
    then show ?thesis by simp
  qed
  from b obtain obs where ob: "heap (snd (basic_mut_sequence bself record orientation w)) = heap w @ obs"
    and rb: "\<forall>r. fst (basic_mut_sequence bself record orientation w) = Inr r \<longrightarrow> length (heap w) < r"
    by blast
  from k obtain obs' where ok: "heap (snd (kde_mut_sequence kself record orientation w)) = heap w @ obs'"
    and rk: "\<forall>r. fst (kde_mut_sequence kself record orientation w) = Inr r \<longrightarrow> length (heap w) < r"
    by blast
  have "deref (snd (basic_mut_sequence bself record orientation w)) a = deref w a"
    if "a < length (heap w)" for a
    using deref_append [OF that ob] .
  moreover have "deref (snd (kde_mut_sequence kself record orientation w)) a = deref w a"
    if "a < length (heap w)" for a
    using deref_append [OF that ok] .
  ultimately show ?thesis using ob ok rb rk by auto
qed

theorem mut_sequence_frame_witness:
  "deref (snd (basic_mut_sequence BasicErrorModel_init example_record ''forward'' example_world))
       (seq example_record) = Some (Seq ''ACGT'') \<and>
   deref (snd (kde_mut_sequence example_model example_record ''forward'' example_world))
       (letter_annotations example_record)
     = Some (RestrictedDict 4 [(''phred_quality'', [0, 0, 0, 0])])"
proof -
  have "seq example_record < length (heap example_world)"
    "letter_annotations example_record < length (heap example_world)"
    by (simp_all add: example_record_def example_world_def)
  with mut_sequence_frame [of example_world BasicErrorModel_init example_record "''forward''"
      example_model] example_world_facts(1,2)
  show ?thesis by simp
qed

text \<open>
  C8. The basic model ignores the orientation: with the same record and the same world
  (heap and random generators), \<open>introduce_error_scores\<close> and \<open>mut_sequence\<close> give the same
  result and the same world for any two orientations.
\<close>

theorem basic_orientation_irrelevant:
  "basic_introduce_error_scores self record orientation1 w
     = basic_introduce_error_scores self record orientation2 w \<and>
   basic_mut_sequence self record orientation1 w = basic_mut_sequence self record orientation2 w"
  by (simp add: basic_introduce_error_scores_def basic_mut_sequence_def)

theorem basic_orientation_irrelevant_witness:
  "basic_introduce_error_scores BasicErrorModel_init example_record ''forward'' example_world
     = basic_introduce_error_scores BasicErrorModel_init example_record ''reverse'' example_world \<and>
   basic_mut_sequence BasicErrorModel_init example_record ''forward'' example_world
     = basic_mut_sequence BasicErrorModel_init example_record ''reverse'' example_world"
  using basic_orientation_irrelevant [of BasicErrorModel_init example_record "''forward''"
      example_world "''reverse''"]
  by simp

subsection \<open>A substitution changes the letter\<close>

lemma basic_mut_loop_substitutes:
  assumes d: "deref w m = Some (MutableSeq letters)"
    and before: "basic_mut_loop before 0 m w = (Inr (), w1)"
    and pos: "length before < length letters"
    and exceeds: "phred_to_prob_binary64 (libm_pow w1) (of_int qual) < fst (random_random w1)"
    and run: "basic_mut_loop (before @ qual # rest) 0 m w = (Inr (), w')"
  shows "\<exists>letters'. heap w' = (heap w)[m := MutableSeq letters'] \<and>
           length letters' = length letters \<and>
           letters' ! length before \<noteq> letters ! length before"
proof -
  let ?p = "length before"
  from basic_mut_loop_inv [OF d, of before 0] before
  obtain l1 where l1: "heap w1 = (heap w)[m := MutableSeq l1]" "length l1 = length letters"
    "l1 ! ?p = letters ! ?p"
    by auto
  have d1: "deref w1 m = Some (MutableSeq l1)" using deref_update_same [OF d l1(1)] .
  have p1: "?p < length l1" using pos l1(2) by simp
  have run1: "basic_mut_loop (qual # rest) ?p m w1 = (Inr (), w')"
    using run basic_mut_loop_append [OF d, of before "qual # rest" 0] before
    by (simp add: and_then_Inr)
  from d1 p1 show ?thesis
  proof (cases rule: basic_mut_loop_step [where qual=qual])
    case (keep w2)
    then show ?thesis using exceeds by simp
  next
    case (key w2)
    from run1 have "(Inl KeyError, w2) = (Inr (), w')" by (simp only: key(4))
    then show ?thesis by simp
  next
    case (subst alts c w2)
    have d2: "deref w2 m = Some (MutableSeq (l1[?p := c]))"
      using deref_update_same [OF d1 subst(3)] .
    have ne: "c \<noteq> l1 ! ?p" using basic_alternatives [OF subst(1)] subst(2) by auto
    from run1 have run2: "basic_mut_loop rest (?p + 1) m w2 = (Inr (), w')"
      by (simp only: subst(5))
    from basic_mut_loop_inv [OF d2, of rest "?p + 1"] run2
    obtain l' where l': "heap w' = (heap w2)[m := MutableSeq l']"
      "length l' = length (l1[?p := c])" "l' ! ?p = (l1[?p := c]) ! ?p"
      by auto
    have "heap w' = (heap w)[m := MutableSeq l']" using l'(1) subst(3) l1(1) by simp
    moreover have "length l' = length letters" using l'(2) l1(2) by simp
    moreover have "l' ! ?p \<noteq> letters ! ?p" using l'(3) p1 ne l1(3) by simp
    ultimately show ?thesis by blast
  qed
qed

lemma kde_mut_loop_substitutes:
  assumes d: "deref w m = Some (MutableSeq letters)"
    and before: "kde_mut_loop self sm before 0 m w = (Inr (), w1)"
    and pos: "length before < length letters"
    and exceeds: "phred_to_prob_binary64 (libm_pow w1) (of_int qual) < fst (random_random w1)"
    and run: "kde_mut_loop self sm (before @ qual # rest) 0 m w = (Inr (), w')"
  shows "\<exists>letters'. heap w' = (heap w)[m := MutableSeq letters'] \<and>
           length letters' = length letters \<and>
           letters' ! length before \<noteq> letters ! length before"
proof -
  let ?p = "length before"
  from kde_mut_loop_inv [OF d, of self sm before 0] before
  obtain l1 where l1: "heap w1 = (heap w)[m := MutableSeq l1]" "length l1 = length letters"
    "l1 ! ?p = letters ! ?p"
    by auto
  have d1: "deref w1 m = Some (MutableSeq l1)" using deref_update_same [OF d l1(1)] .
  have p1: "?p < length l1" using pos l1(2) by simp
  have run1: "kde_mut_loop self sm (qual # rest) ?p m w1 = (Inr (), w')"
    using run kde_mut_loop_append [OF d, of self sm before "qual # rest" 0] before
    by (simp add: and_then_Inr)
  from d1 p1 show ?thesis
  proof (cases rule: kde_mut_loop_step [where sm=sm and self=self and qual=qual])
    case unbound
    from run1 have "(Inl UnboundLocalError, w1) = (Inr (), w')" by (simp only: unbound(2))
    then show ?thesis by simp
  next
    case (index matrix)
    from run1 have "(Inl IndexError, w1) = (Inr (), w')" by (simp only: index(3))
    then show ?thesis by simp
  next
    case (keep w2)
    then show ?thesis using exceeds by simp
  next
    case (key matrix w2)
    from run1 have "(Inl KeyError, w2) = (Inr (), w')" by (simp only: key(6))
    then show ?thesis by simp
  next
    case (fail matrix alts probs e w2)
    from run1 have "(Inl e, w2) = (Inr (), w')" by (simp only: fail(7))
    then show ?thesis by simp
  next
    case (subst matrix alts probs c w2)
    have d2: "deref w2 m = Some (MutableSeq (l1[?p := c]))"
      using deref_update_same [OF d1 subst(5)] .
    have ne: "c \<noteq> l1 ! ?p" using subst_choices_lookup [OF subst(3)] subst(4) by auto
    from run1 have run2: "kde_mut_loop self sm rest (?p + 1) m w2 = (Inr (), w')"
      by (simp only: subst(7))
    from kde_mut_loop_inv [OF d2, of self sm rest "?p + 1"] run2
    obtain l' where l': "heap w' = (heap w2)[m := MutableSeq l']"
      "length l' = length (l1[?p := c])" "l' ! ?p = (l1[?p := c]) ! ?p"
      by auto
    have "heap w' = (heap w)[m := MutableSeq l']" using l'(1) subst(5) l1(1) by simp
    moreover have "length l' = length letters" using l'(2) l1(2) by simp
    moreover have "l' ! ?p \<noteq> letters ! ?p" using l'(3) p1 ne l1(3) by simp
    ultimately show ?thesis by blast
  qed
qed

lemma basic_mut_sequence_unfold:
  assumes "deref w (seq record) = Some (Seq s)"
    and "deref w (letter_annotations record) = Some (RestrictedDict n al)"
    and "map_of al ''phred_quality'' = Some ql"
  shows "basic_mut_sequence self record orientation w =
           and_then (basic_mut_loop ql 0 (length (heap w)) (w\<lparr>heap := heap w @ [MutableSeq s]\<rparr>))
             (\<lambda>_ w3. toseq (length (heap w)) w3)"
proof -
  let ?w0 = "w\<lparr>heap := heap w @ [MutableSeq s]\<rparr>"
  have "deref ?w0 (letter_annotations record) = Some (RestrictedDict n al)"
    using deref_append [OF deref_Some_less [OF assms(2)], of ?w0 "[MutableSeq s]"] assms(2) by simp
  then have "annotations_getitem (letter_annotations record) ''phred_quality'' ?w0 = (Inr ql, ?w0)"
    using assms(3) by (rule annotations_getitem_found)
  then show ?thesis
    by (simp add: basic_mut_sequence_def tomutable_Seq [OF assms(1)] and_then_Inr)
qed

lemma kde_mut_sequence_unfold:
  assumes "deref w (seq record) = Some (Seq s)"
    and "deref w (letter_annotations record) = Some (RestrictedDict n al)"
    and "map_of al ''phred_quality'' = Some ql"
    and "orientation = ''forward'' \<or> orientation = ''reverse''"
  shows "kde_mut_sequence self record orientation w =
           and_then
             (kde_mut_loop self
                (Some (if orientation = ''forward'' then subst_matrix_forward self
                       else subst_matrix_reverse self))
                ql 0 (length (heap w)) (w\<lparr>heap := heap w @ [MutableSeq s]\<rparr>))
             (\<lambda>_ w3. toseq (length (heap w)) w3)"
proof -
  let ?w0 = "w\<lparr>heap := heap w @ [MutableSeq s]\<rparr>"
  have "deref ?w0 (letter_annotations record) = Some (RestrictedDict n al)"
    using deref_append [OF deref_Some_less [OF assms(2)], of ?w0 "[MutableSeq s]"] assms(2) by simp
  then have "annotations_getitem (letter_annotations record) ''phred_quality'' ?w0 = (Inr ql, ?w0)"
    using assms(3) by (rule annotations_getitem_found)
  then show ?thesis using assms(4)
    by (auto simp: kde_mut_sequence_def tomutable_Seq [OF assms(1)] and_then_Inr)
qed

lemma and_then_returns:
  "and_then r f = (Inr y, w') \<Longrightarrow> \<exists>x w1. r = (Inr x, w1) \<and> f x w1 = (Inr y, w')"
  by (cases r) (auto simp: and_then_def split: sum.splits)

lemma returned_copy:
  assumes "heap w3 = (heap w0)[m := MutableSeq s']" and "m < length (heap w0)"
    and "toseq m w3 = (Inr r, w')"
  shows "deref w' r = Some (Seq s')"
proof -
  have "deref w3 m = Some (MutableSeq s')" using assms(1,2) by (simp add: deref_def)
  from toseq_MutableSeq [OF this] assms(3) show ?thesis by (auto simp: deref_def)
qed

lemma basic_mut_sequence_returns:
  assumes "deref w (seq record) = Some (Seq s)" and "set s \<subseteq> nucleotides"
    and "deref w (letter_annotations record) = Some (RestrictedDict n al)"
    and "map_of al ''phred_quality'' = Some ql"
  shows "\<exists>r w'. basic_mut_sequence self record orientation w = (Inr r, w')"
proof (cases rule: basic_mut_sequence_outcome [of w "record" self orientation])
  case no_seq
  then show ?thesis using assms(1) by simp
next
  case (raised s0 s' e w')
  then show ?thesis using assms(1,2) annotations_getitem_found [OF assms(3,4)] by simp
next
  case (returned s0 s' w')
  then show ?thesis by blast
qed

lemma kde_mut_sequence_returns:
  assumes "deref w (seq record) = Some (Seq s)" and "set s \<subseteq> nucleotides"
    and "deref w (letter_annotations record) = Some (RestrictedDict n al)"
    and "map_of al ''phred_quality'' = Some ql"
    and "valid_subst_matrix (Some (subst_matrix_forward self)) (length s)"
  shows "\<exists>r w'. kde_mut_sequence self record ''forward'' w = (Inr r, w')"
proof (cases rule: kde_mut_sequence_outcome [of w "record" self "''forward''"])
  case (no_seq w')
  then show ?thesis using assms(1) by simp
next
  case (raised s0 s' e w')
  then show ?thesis using assms(1,2,5) annotations_getitem_found [OF assms(3,4)] by simp
next
  case (returned s0 s' w')
  then show ?thesis by blast
qed

lemma example_first_draw:
  "phred_to_prob_binary64
     (libm_pow (example_world\<lparr>heap := heap example_world @ [MutableSeq ''ACGT'']\<rparr>)) (of_int 0)
     < fst (random_random (example_world\<lparr>heap := heap example_world @ [MutableSeq ''ACGT'']\<rparr>))"
proof -
  have "libm_pow (example_world\<lparr>heap := heap example_world @ [MutableSeq ''ACGT'']\<rparr>) 10 0 = 1"
    by (simp add: example_world_def binary64_one)
  from phred_to_prob_binary64_0
    [where pow = "libm_pow (example_world\<lparr>heap := heap example_world @ [MutableSeq ''ACGT'']\<rparr>)",
      OF this]
  show ?thesis by (simp add: random_random_def unit_float_def example_world_def)
qed

text \<open>
  A draw equal to the threshold does not exceed it: at quality 10 and the draw
  \<open>8106479329266893 / 2 ^ 53\<close> both models return the letter unchanged (the empirical one
  even on a profile whose counts are all zero, since it does not draw a substitute).
\<close>

lemma boundary_draw_keeps_base:
  "fst (basic_mut_sequence BasicErrorModel_init example_record ''forward'' boundary_world) = Inr 3 \<and>
   deref (snd (basic_mut_sequence BasicErrorModel_init example_record ''forward'' boundary_world)) 3
     = Some (Seq ''A'') \<and>
   fst (kde_mut_sequence degenerate_model example_record ''forward'' boundary_world) = Inr 3 \<and>
   deref (snd (kde_mut_sequence degenerate_model example_record ''forward'' boundary_world)) 3
     = Some (Seq ''A'')"
proof -
  have t: "\<not> phred_to_prob_binary64 (\<lambda>b x. binary64 (b powr x)) 10 < unit_float 8106479329266893"
    by (simp add: phred_to_prob_binary64_10 unit_float_def)
  show ?thesis
    by (simp add: basic_mut_sequence_def kde_mut_sequence_def and_then_def
      tomutable_def toseq_def alloc_def deref_def annotations_getitem_def random_random_def
      boundary_world_def example_world_def example_record_def t Let_def
      degenerate_model_def KernelDensityErrorModel_init_def)
qed

text \<open>
  C6. For both models (the empirical one with an orientation \<open>forward\<close> or \<open>reverse\<close>):
  take a position of the sequence, let \<open>before\<close> be the qualities of the positions in
  front of it, \<open>qual\<close> its own quality, and \<open>w1\<close> the world the loop has reached when it
  has handled the positions in front. If the draw \<^verbatim>\<open>random.random()\<close> made in \<open>w1\<close> exceeds
  the float \<^verbatim>\<open>phred_to_prob(qual)\<close> returns (the comparison the code makes), then in the
  sequence \<open>mut_sequence\<close> returns the letter at that position differs from the letter of
  the input sequence at that position.
\<close>

theorem substitution_changes_base:
  assumes "deref w (seq record) = Some (Seq s)"
    and "deref w (letter_annotations record) = Some (RestrictedDict n al)"
    and "map_of al ''phred_quality'' = Some (before @ qual # rest)"
    and "length before < length s"
  shows "(\<forall>w1 r w'.
            basic_mut_loop before 0 (length (heap w)) (w\<lparr>heap := heap w @ [MutableSeq s]\<rparr>)
              = (Inr (), w1) \<and>
            phred_to_prob_binary64 (libm_pow w1) (of_int qual) < fst (random_random w1) \<and>
            basic_mut_sequence bself record orientation w = (Inr r, w') \<longrightarrow>
            (\<exists>s'. deref w' r = Some (Seq s') \<and> s' ! length before \<noteq> s ! length before)) \<and>
         (\<forall>w1 r w'.
            (orientation = ''forward'' \<or> orientation = ''reverse'') \<and>
            kde_mut_loop kself
              (Some (if orientation = ''forward'' then subst_matrix_forward kself
                     else subst_matrix_reverse kself))
              before 0 (length (heap w)) (w\<lparr>heap := heap w @ [MutableSeq s]\<rparr>)
              = (Inr (), w1) \<and>
            phred_to_prob_binary64 (libm_pow w1) (of_int qual) < fst (random_random w1) \<and>
            kde_mut_sequence kself record orientation w = (Inr r, w') \<longrightarrow>
            (\<exists>s'. deref w' r = Some (Seq s') \<and> s' ! length before \<noteq> s ! length before))"
proof -
  let ?m = "length (heap w)"
  let ?w0 = "w\<lparr>heap := heap w @ [MutableSeq s]\<rparr>"
  let ?sm = "Some (if orientation = ''forward'' then subst_matrix_forward kself
                   else subst_matrix_reverse kself)"
  have d0: "deref ?w0 ?m = Some (MutableSeq s)" by (simp add: deref_def)
  have m0: "?m < length (heap ?w0)" by simp
  have basic: "\<exists>s'. deref w' r = Some (Seq s') \<and> s' ! length before \<noteq> s ! length before"
    if before: "basic_mut_loop before 0 ?m ?w0 = (Inr (), w1)"
      and exceeds: "phred_to_prob_binary64 (libm_pow w1) (of_int qual) < fst (random_random w1)"
      and run: "basic_mut_sequence bself record orientation w = (Inr r, w')"
    for w1 r w'
  proof -
    have "and_then (basic_mut_loop (before @ qual # rest) 0 ?m ?w0) (\<lambda>_ w3. toseq ?m w3)
        = (Inr r, w')"
      using run by (simp only: basic_mut_sequence_unfold [OF assms(1,2,3)])
    from and_then_returns [OF this]
    obtain u w3 where loop: "basic_mut_loop (before @ qual # rest) 0 ?m ?w0 = (Inr u, w3)"
      and ts: "toseq ?m w3 = (Inr r, w')"
      by blast
    have "basic_mut_loop (before @ qual # rest) 0 ?m ?w0 = (Inr (), w3)" using loop by simp
    from basic_mut_loop_substitutes [OF d0 before assms(4) exceeds this]
    obtain s' where s': "heap w3 = (heap ?w0)[?m := MutableSeq s']"
      "s' ! length before \<noteq> s ! length before"
      by blast
    from returned_copy [OF s'(1) m0 ts] s'(2) show ?thesis by blast
  qed
  have kde: "\<exists>s'. deref w' r = Some (Seq s') \<and> s' ! length before \<noteq> s ! length before"
    if o: "orientation = ''forward'' \<or> orientation = ''reverse''"
      and before: "kde_mut_loop kself ?sm before 0 ?m ?w0 = (Inr (), w1)"
      and exceeds: "phred_to_prob_binary64 (libm_pow w1) (of_int qual) < fst (random_random w1)"
      and run: "kde_mut_sequence kself record orientation w = (Inr r, w')"
    for w1 r w'
  proof -
    have "and_then (kde_mut_loop kself ?sm (before @ qual # rest) 0 ?m ?w0) (\<lambda>_ w3. toseq ?m w3)
        = (Inr r, w')"
      using run by (simp only: kde_mut_sequence_unfold [OF assms(1,2,3) o])
    from and_then_returns [OF this]
    obtain u w3 where loop: "kde_mut_loop kself ?sm (before @ qual # rest) 0 ?m ?w0 = (Inr u, w3)"
      and ts: "toseq ?m w3 = (Inr r, w')"
      by blast
    have "kde_mut_loop kself ?sm (before @ qual # rest) 0 ?m ?w0 = (Inr (), w3)" using loop by simp
    from kde_mut_loop_substitutes [OF d0 before assms(4) exceeds this]
    obtain s' where s': "heap w3 = (heap ?w0)[?m := MutableSeq s']"
      "s' ! length before \<noteq> s ! length before"
      by blast
    from returned_copy [OF s'(1) m0 ts] s'(2) show ?thesis by blast
  qed
  show ?thesis using basic kde by blast
qed

theorem substitution_changes_base_witness:
  "(\<exists>r w' s'. basic_mut_sequence BasicErrorModel_init example_record ''forward'' example_world
        = (Inr r, w') \<and>
      deref w' r = Some (Seq s') \<and> s' ! 0 \<noteq> ''ACGT'' ! 0) \<and>
   (\<exists>r w' s'. kde_mut_sequence example_model example_record ''forward'' example_world
        = (Inr r, w') \<and>
      deref w' r = Some (Seq s') \<and> s' ! 0 \<noteq> ''ACGT'' ! 0)"
proof -
  let ?w0 = "example_world\<lparr>heap := heap example_world @ [MutableSeq ''ACGT'']\<rparr>"
  let ?m = "length (heap example_world)"
  have q: "map_of [(''phred_quality'', [0, 0, 0, 0 :: int])] ''phred_quality''
      = Some ([] @ 0 # [0, 0, 0])"
    by simp
  have q': "map_of [(''phred_quality'', [0, 0, 0, 0 :: int])] ''phred_quality''
      = Some [0, 0, 0, 0]"
    by simp
  have p: "length ([] :: int list) < length ''ACGT''" by simp
  note t = substitution_changes_base [OF example_world_facts(1) example_world_facts(2) q p,
      of BasicErrorModel_init "''forward''" example_model]
  have b0: "basic_mut_loop [] 0 ?m ?w0 = (Inr (), ?w0)" by simp
  have k0: "kde_mut_loop example_model
      (Some (if ''forward'' = ''forward'' then subst_matrix_forward example_model
             else subst_matrix_reverse example_model)) [] 0 ?m ?w0 = (Inr (), ?w0)"
    by simp
  from basic_mut_sequence_returns [OF example_world_facts(1) example_world_facts(3)
      example_world_facts(2) q', of BasicErrorModel_init "''forward''"]
  obtain rb wb where rb: "basic_mut_sequence BasicErrorModel_init example_record ''forward''
      example_world = (Inr rb, wb)"
    by blast
  from kde_mut_sequence_returns [OF example_world_facts(1) example_world_facts(3)
      example_world_facts(2) q' example_matrix_valid]
  obtain rk wk where rk: "kde_mut_sequence example_model example_record ''forward''
      example_world = (Inr rk, wk)"
    by blast
  have "\<exists>s'. deref wb rb = Some (Seq s') \<and> s' ! length ([] :: int list) \<noteq> ''ACGT'' ! length ([] :: int list)"
    using t b0 example_first_draw rb by blast
  moreover have "\<exists>s'. deref wk rk = Some (Seq s') \<and> s' ! length ([] :: int list) \<noteq> ''ACGT'' ! length ([] :: int list)"
    using t k0 example_first_draw rk by blast
  ultimately show ?thesis using rb rk by (simp del: nth_Cons_0)
qed

section \<open>Properties of the quality scores\<close>

lemma collect_all_Inr:
  "(\<And>r. r \<in> set rs \<Longrightarrow> \<exists>y. r = Inr y) \<Longrightarrow> \<exists>ys. collect rs = Inr ys \<and> length ys = length rs"
proof (induction rs)
  case Nil
  then show ?case by simp
next
  case (Cons r rs)
  from Cons.prems [of r] obtain y where y: "r = Inr y" by auto
  from Cons.IH Cons.prems obtain ys where "collect rs = Inr ys" "length ys = length rs"
    by auto
  then show ?case using y by simp
qed

lemma prob_to_phred_clamped: "\<exists>q. prob_to_phred (min p 0.9999) = Inr q"
proof -
  have "0 < 1 - min p 0.9999" by (simp add: min_def)
  then show ?thesis by (simp add: prob_to_phred_def Let_def)
qed

lemma basic_gen_phred_scores_returns:
  "\<exists>phred w'. basic_gen_phred_scores self mean_quality w = (Inr phred, w') \<and>
     length phred = read_length self \<and> heap w' = heap w"
proof -
  let ?normal = "np_random_normal mean_quality 0.01 (read_length self) w"
  let ?rs = "map prob_to_phred (map (\<lambda>q. min q 0.9999) (fst ?normal))"
  have eq: "basic_gen_phred_scores self mean_quality w = (collect ?rs, snd ?normal)"
    by (simp add: basic_gen_phred_scores_def Let_def split_beta)
  have len: "length ?rs = read_length self" by (simp add: np_random_normal_def)
  have hp: "heap (snd ?normal) = heap w" by (simp add: np_random_normal_def)
  have "\<exists>ys. collect ?rs = Inr ys \<and> length ys = length ?rs"
    by (rule collect_all_Inr) (use prob_to_phred_clamped in auto)
  then obtain ys where "collect ?rs = Inr ys" "length ys = length ?rs" by blast
  then show ?thesis unfolding eq using len hp by simp
qed

lemma kde_gen_loop_length:
  "kde_gen_loop hs acc w = (Inr phred, w') \<Longrightarrow> length phred = length acc + length hs"
proof (induction hs arbitrary: acc w)
  case Nil
  then show ?case by simp
next
  case (Cons hist rest)
  obtain vals indices where h: "hist = (vals, indices)" by (cases hist)
  obtain rc w1 where c: "np_random_choice (drop 1 indices)
      (map (\<lambda>v. np_div v (sum_list vals)) vals) w = (rc, w1)"
    by (cases "np_random_choice (drop 1 indices) (map (\<lambda>v. np_div v (sum_list vals)) vals) w")
  show ?case
  proof (cases rc)
    case (Inl e)
    then show ?thesis using Cons.prems h c by simp
  next
    case (Inr random_quality)
    then have "kde_gen_loop rest (acc @ [py_round random_quality]) w1 = (Inr phred, w')"
      using Cons.prems h c by simp
    from Cons.IH [OF this] show ?thesis by simp
  qed
qed

lemma kde_gen_loop_returns:
  "list_all valid_histogram hs \<Longrightarrow>
     \<exists>phred w'. kde_gen_loop hs acc w = (Inr phred, w') \<and> heap w' = heap w"
proof (induction hs arbitrary: acc w)
  case Nil
  then show ?case by simp
next
  case (Cons hist rest)
  obtain vals indices where h: "hist = (vals, indices)" by (cases hist)
  have v: "vals \<noteq> []" "length indices = length vals + 1" "list_all (\<lambda>v. 0 \<le> v) vals"
    "0 < sum_list vals"
    using Cons.prems h by (simp_all add: valid_histogram_def)
  have a: "drop 1 indices \<noteq> []" "length vals = length (drop 1 indices)" using v(1,2) by auto
  from np_random_choice_normalised [OF a v(3,4), of w]
  obtain c w1 where c: "np_random_choice (drop 1 indices)
      (map (\<lambda>v. np_div v (sum_list vals)) vals) w = (Inr c, w1)"
    by blast
  have h1: "heap w1 = heap w" using np_random_choice_cases [OF c] by simp
  from Cons.IH [of "acc @ [py_round c]" w1] Cons.prems
  obtain phred w' where "kde_gen_loop rest (acc @ [py_round c]) w1 = (Inr phred, w')"
    "heap w' = heap w1"
    by auto
  then show ?case using h c h1 by simp
qed

lemma annotations_setitem_stores:
  assumes "deref w a = Some (RestrictedDict n al)" and "length v = n"
  shows "\<exists>w'. annotations_setitem a k v w = (Inr (), w') \<and>
           annotations_getitem a k w' = (Inr v, w')"
proof -
  let ?w' = "store a (RestrictedDict n (AList.update k v al)) w"
  have "deref ?w' a = Some (RestrictedDict n (AList.update k v al))"
    using assms(1) by (rule deref_update_same) (simp add: heap_store)
  then have "annotations_getitem a k ?w' = (Inr v, ?w')"
    by (rule annotations_getitem_found) (simp add: update_conv')
  then show ?thesis using assms by (simp add: annotations_setitem_def)
qed

lemma introduce_after_gen:
  assumes "gen = (Inr phred, w1)" and "heap w1 = heap w"
    and "deref w (letter_annotations record) = Some (RestrictedDict n al)"
    and "length phred = n"
  shows "\<exists>w'. and_then gen
             (\<lambda>phred w1.
                and_then (annotations_setitem (letter_annotations record) ''phred_quality'' phred w1)
                  (\<lambda>_ w2. (Inr record, w2)))
           = (Inr record, w') \<and>
           annotations_getitem (letter_annotations record) ''phred_quality'' w' = (Inr phred, w')"
proof -
  have "deref w1 (letter_annotations record) = Some (RestrictedDict n al)"
    using deref_heap_cong [OF assms(2)] assms(3) by simp
  from annotations_setitem_stores [OF this assms(4), of "''phred_quality''"]
  obtain w' where "annotations_setitem (letter_annotations record) ''phred_quality'' phred w1
      = (Inr (), w')"
    "annotations_getitem (letter_annotations record) ''phred_quality'' w' = (Inr phred, w')"
    by blast
  then show ?thesis by (simp add: assms(1) and_then_Inr)
qed

text \<open>
  C7. The basic model has read length 125, and its \<open>gen_phred_scores\<close> always returns
  \<open>read_length\<close> integers. For the empirical model and an orientation \<open>forward\<close> or
  \<open>reverse\<close>, \<open>gen_phred_scores\<close> on the histograms of that orientation returns one integer
  per histogram whenever it returns, and it does return when the histograms are valid; so
  for a profile with \<open>read_length\<close> histograms it returns \<open>read_length\<close> integers. For both
  models \<open>introduce_error_scores\<close> then stores that list as the record's
  \<open>phred_quality\<close> annotation, when the record's sequence has \<open>read_length\<close> letters.
\<close>

theorem quality_scores_length:
  fixes kself :: KernelDensityErrorModel and orientation :: string
  defines "histograms \<equiv> (if orientation = ''forward'' then quality_hist_forward kself
                          else quality_hist_reverse kself)"
  assumes "orientation = ''forward'' \<or> orientation = ''reverse''"
  shows "read_length BasicErrorModel_init = 125 \<and>
    (\<exists>phred w'. basic_gen_phred_scores bself mean_quality w = (Inr phred, w') \<and>
       length phred = read_length bself) \<and>
    (deref w (letter_annotations record) = Some (RestrictedDict (read_length bself) al) \<longrightarrow>
       (\<exists>phred w'. basic_introduce_error_scores bself record orientation w = (Inr record, w') \<and>
          annotations_getitem (letter_annotations record) ''phred_quality'' w' = (Inr phred, w') \<and>
          length phred = read_length bself)) \<and>
    (\<forall>phred w'. kde_gen_phred_scores kself histograms w = (Inr phred, w') \<longrightarrow>
       length phred = length histograms) \<and>
    (list_all valid_histogram histograms \<and> length histograms = read_length kself \<longrightarrow>
       (\<exists>phred w'. kde_gen_phred_scores kself histograms w = (Inr phred, w') \<and>
          length phred = read_length kself)) \<and>
    (list_all valid_histogram histograms \<and> length histograms = read_length kself \<and>
     deref w (letter_annotations record) = Some (RestrictedDict (read_length kself) al) \<longrightarrow>
       (\<exists>phred w'. kde_introduce_error_scores kself record orientation w = (Inr record, w') \<and>
          annotations_getitem (letter_annotations record) ''phred_quality'' w' = (Inr phred, w') \<and>
          length phred = read_length kself))"
proof -
  have c1: "read_length BasicErrorModel_init = 125" by (simp add: BasicErrorModel_init_def)
  have c2: "\<exists>phred w'. basic_gen_phred_scores bself mean_quality w = (Inr phred, w') \<and>
       length phred = read_length bself"
    using basic_gen_phred_scores_returns [of bself mean_quality w] by blast
  have c3: "\<exists>phred w'. basic_introduce_error_scores bself record orientation w = (Inr record, w') \<and>
          annotations_getitem (letter_annotations record) ''phred_quality'' w' = (Inr phred, w') \<and>
          length phred = read_length bself"
    if d: "deref w (letter_annotations record) = Some (RestrictedDict (read_length bself) al)"
  proof -
    from basic_gen_phred_scores_returns
      [of bself "phred_to_prob_binary64 (libm_pow w) (of_int (quality bself))" w]
    obtain phred w1 where g: "basic_gen_phred_scores bself
        (phred_to_prob_binary64 (libm_pow w) (of_int (quality bself))) w = (Inr phred, w1)"
      "length phred = read_length bself" "heap w1 = heap w"
      by blast
    from introduce_after_gen [OF g(1) g(3) d g(2)] g(2)
    show ?thesis unfolding basic_introduce_error_scores_def by blast
  qed
  have c4: "length phred = length histograms"
    if "kde_gen_phred_scores kself histograms w = (Inr phred, w')" for phred w'
    using kde_gen_loop_length [of histograms "[]" w phred w'] that
    by (simp add: kde_gen_phred_scores_def)
  have c5: "\<exists>phred w'. kde_gen_phred_scores kself histograms w = (Inr phred, w') \<and>
       length phred = read_length kself \<and> heap w' = heap w"
    if "list_all valid_histogram histograms" "length histograms = read_length kself"
  proof -
    from kde_gen_loop_returns [OF that(1), of "[]" w]
    obtain phred w' where g: "kde_gen_phred_scores kself histograms w = (Inr phred, w')"
      "heap w' = heap w"
      unfolding kde_gen_phred_scores_def by blast
    from c4 [OF g(1)] g that(2) show ?thesis by auto
  qed
  have c6: "\<exists>phred w'. kde_introduce_error_scores kself record orientation w = (Inr record, w') \<and>
          annotations_getitem (letter_annotations record) ''phred_quality'' w' = (Inr phred, w') \<and>
          length phred = read_length kself"
    if v: "list_all valid_histogram histograms" "length histograms = read_length kself"
      and d: "deref w (letter_annotations record) = Some (RestrictedDict (read_length kself) al)"
  proof -
    from c5 [OF v]
    obtain phred w1 where g: "kde_gen_phred_scores kself histograms w = (Inr phred, w1)"
      "length phred = read_length kself" "heap w1 = heap w"
      by blast
    have "kde_introduce_error_scores kself record orientation w =
        and_then (kde_gen_phred_scores kself histograms w)
          (\<lambda>phred w1.
             and_then (annotations_setitem (letter_annotations record) ''phred_quality'' phred w1)
               (\<lambda>_ w2. (Inr record, w2)))"
      using assms(2) by (auto simp: kde_introduce_error_scores_def histograms_def)
    with introduce_after_gen [OF g(1) g(3) d g(2)] g(2)
    show ?thesis by auto
  qed
  show ?thesis using c1 c2 c3 c4 c5 c6 by blast
qed

lemma example_histograms_valid:
  "list_all valid_histogram (quality_hist_forward example_model)"
  "length (quality_hist_forward example_model) = read_length example_model"
  by (simp_all add: example_model_def KernelDensityErrorModel_init_def example_profile_def
      valid_histogram_def list_all_iff)

theorem quality_scores_length_witness:
  "(\<exists>phred w'. basic_introduce_error_scores BasicErrorModel_init example_record ''forward''
        long_world = (Inr example_record, w') \<and>
      annotations_getitem (letter_annotations example_record) ''phred_quality'' w'
        = (Inr phred, w') \<and>
      length phred = read_length BasicErrorModel_init) \<and>
   (\<exists>phred w'. kde_introduce_error_scores example_model example_record ''forward''
        example_world = (Inr example_record, w') \<and>
      annotations_getitem (letter_annotations example_record) ''phred_quality'' w'
        = (Inr phred, w') \<and>
      length phred = read_length example_model)"
proof -
  have o: "''forward'' = ''forward'' \<or> ''forward'' = ''reverse''" by simp
  have d1: "deref long_world (letter_annotations example_record)
      = Some (RestrictedDict (read_length BasicErrorModel_init) [])"
    by (simp add: deref_def long_world_def example_record_def BasicErrorModel_init_def)
  have d2: "deref example_world (letter_annotations example_record)
      = Some (RestrictedDict (read_length example_model) [(''phred_quality'', [0, 0, 0, 0])])"
    by (simp add: deref_def example_world_def example_record_def example_model_def
        KernelDensityErrorModel_init_def example_profile_def)
  from quality_scores_length [OF o, of BasicErrorModel_init _ long_world example_record "[]"
      example_model] d1
  have "\<exists>phred w'. basic_introduce_error_scores BasicErrorModel_init example_record ''forward''
        long_world = (Inr example_record, w') \<and>
      annotations_getitem (letter_annotations example_record) ''phred_quality'' w'
        = (Inr phred, w') \<and>
      length phred = read_length BasicErrorModel_init"
    by blast
  moreover
  from quality_scores_length [OF o, of BasicErrorModel_init _ example_world example_record
      "[(''phred_quality'', [0, 0, 0, 0])]" example_model] d2 example_histograms_valid
  have "\<exists>phred w'. kde_introduce_error_scores example_model example_record ''forward''
        example_world = (Inr example_record, w') \<and>
      annotations_getitem (letter_annotations example_record) ''phred_quality'' w'
        = (Inr phred, w') \<and>
      length phred = read_length example_model"
    by simp
  ultimately show ?thesis by blast
qed

section \<open>Properties of the substitution choices\<close>

subsection \<open>The counts the empirical model reads\<close>

lemma slice_three:
  assumes l: "i + 3 \<le> length v" and j: "j = i + 3" "i1 = i + 1" "i2 = i + 2"
  shows "slice i j v = [v ! i, v ! i1, v ! i2]"
proof -
  have "take 3 (drop i v) = [v ! i, v ! (i + 1), v ! (i + 2)]"
  proof (rule nth_equalityI)
    show "length (take 3 (drop i v)) = length [v ! i, v ! (i + 1), v ! (i + 2)]"
      using l by simp
  next
    fix k
    assume "k < length (take 3 (drop i v))"
    then have k: "k < 3" by simp
    then consider "k = 0" | "k = 1" | "k = 2" by linarith
    then show "take 3 (drop i v) ! k = [v ! i, v ! (i + 1), v ! (i + 2)] ! k"
      using l by cases (simp_all add: add.commute)
  qed
  then show ?thesis by (simp add: slice_def j)
qed

lemma choices_of_sixteen:
  assumes "length v = 16"
  shows "subst_matrix_to_choices self v =
    [(CHR ''A'', (''TCG'', map (\<lambda>count. np_div count (v ! 1 + v ! 2 + v ! 3)) [v ! 1, v ! 2, v ! 3])),
     (CHR ''T'', (''ACG'', map (\<lambda>count. np_div count (v ! 5 + v ! 6 + v ! 7)) [v ! 5, v ! 6, v ! 7])),
     (CHR ''C'', (''ATG'', map (\<lambda>count. np_div count (v ! 9 + v ! 10 + v ! 11)) [v ! 9, v ! 10, v ! 11])),
     (CHR ''G'', (''ATC'', map (\<lambda>count. np_div count (v ! 13 + v ! 14 + v ! 15)) [v ! 13, v ! 14, v ! 15]))]"
proof -
  have a: "slice 1 4 v = [v ! 1, v ! 2, v ! 3]"
    by (rule slice_three) (simp_all add: assms)
  have t: "slice 5 8 v = [v ! 5, v ! 6, v ! 7]"
    by (rule slice_three) (simp_all add: assms)
  have c: "slice 9 12 v = [v ! 9, v ! 10, v ! 11]"
    by (rule slice_three) (simp_all add: assms)
  have "slice 13 16 v = [v ! 13, v ! 14, v ! 15]"
    by (rule slice_three) (simp_all add: assms)
  then have g: "drop 13 v = [v ! 13, v ! 14, v ! 15]" using assms by (simp add: slice_def)
  show ?thesis unfolding subst_matrix_to_choices_def Let_def a t c g
    by (simp add: add.assoc)
qed

lemma choices_ignore_block_heads:
  "subst_matrix_to_choices self (v[0 := a, 4 := b, 8 := c, 12 := d]) = subst_matrix_to_choices self v"
proof -
  let ?v = "v[0 := a, 4 := b, 8 := c, 12 := d]"
  have nth: "?v ! i = v ! i" if "i \<noteq> 0" "i \<noteq> 4" "i \<noteq> 8" "i \<noteq> 12" for i
    using that by simp
  have "slice i j ?v = slice i j v" if "\<And>k. i \<le> k \<Longrightarrow> k < j \<Longrightarrow> k \<noteq> 0 \<and> k \<noteq> 4 \<and> k \<noteq> 8 \<and> k \<noteq> 12" for i j
    unfolding slice_def
  proof (rule nth_equalityI)
    show "length (take (j - i) (drop i ?v)) = length (take (j - i) (drop i v))" by simp
  next
    fix k
    assume "k < length (take (j - i) (drop i ?v))"
    then have k: "k < j - i" "i + k < length v" by auto
    then have "i \<le> i + k" "i + k < j" by simp_all
    from that [OF this] have "?v ! (i + k) = v ! (i + k)" by (intro nth) simp_all
    then show "take (j - i) (drop i ?v) ! k = take (j - i) (drop i v) ! k"
      using k by simp
  qed
  then have s: "slice 1 4 ?v = slice 1 4 v" "slice 5 8 ?v = slice 5 8 v" "slice 9 12 ?v = slice 9 12 v"
    by simp_all
  have g: "drop 13 ?v = drop 13 v" by simp
  show ?thesis by (simp only: subst_matrix_to_choices_def s g)
qed

text \<open>
  C1 (amended). For a count vector of sixteen entries and every source base, the
  probabilities are the three counts at offsets 1, 2 and 3 of the base's block of four
  (indices 1 to 3 for A, 5 to 7 for T, 9 to 11 for C, 13 to 15 for G), each divided by
  their sum, paired in this order with the three other bases in the order A, T, C, G. The
  counts at offset 0 of each block (indices 0, 4, 8 and 12) are never used.
\<close>

theorem subst_matrix_to_choices_counts:
  assumes "length v = 16"
  shows "map_of (subst_matrix_to_choices self v) CHR ''A''
      = Some (''TCG'', map (\<lambda>count. np_div count (v ! 1 + v ! 2 + v ! 3)) [v ! 1, v ! 2, v ! 3]) \<and>
    map_of (subst_matrix_to_choices self v) CHR ''T''
      = Some (''ACG'', map (\<lambda>count. np_div count (v ! 5 + v ! 6 + v ! 7)) [v ! 5, v ! 6, v ! 7]) \<and>
    map_of (subst_matrix_to_choices self v) CHR ''C''
      = Some (''ATG'', map (\<lambda>count. np_div count (v ! 9 + v ! 10 + v ! 11)) [v ! 9, v ! 10, v ! 11]) \<and>
    map_of (subst_matrix_to_choices self v) CHR ''G''
      = Some (''ATC'', map (\<lambda>count. np_div count (v ! 13 + v ! 14 + v ! 15)) [v ! 13, v ! 14, v ! 15]) \<and>
    subst_matrix_to_choices self (v[0 := a, 4 := b, 8 := c, 12 := d]) = subst_matrix_to_choices self v"
  unfolding choices_of_sixteen [OF assms] choices_ignore_block_heads by simp

theorem subst_matrix_to_choices_counts_witness:
  "length example_row = 16 \<and>
   map_of (subst_matrix_to_choices example_model example_row) CHR ''T''
     = Some (''ACG'', [Finite (1 / 4), Finite (1 / 4), Finite (1 / 2)]) \<and>
   subst_matrix_to_choices example_model (example_row[0 := 5, 4 := 6, 8 := 7, 12 := 8])
     = subst_matrix_to_choices example_model example_row"
proof -
  have l: "length example_row = 16" by (simp add: example_row_def)
  from subst_matrix_to_choices_counts [OF l, of example_model 5 6 7 8] l
  show ?thesis by (simp add: example_row_def np_div_def)
qed

lemma upt_0_4: "[0..<4] = [0, 1, 2, 3]"
  by code_simp

lemma row_major_example:
  "row_major_probabilities 1 example_row = [Finite 0, Finite (1 / 3), Finite (2 / 3)]"
  by (simp add: row_major_probabilities_def row_major_off_diagonal_def upt_0_4 example_row_def
      np_div_def)

text \<open>
  C1 as stated fails: with the vector read as a row-major 4 by 4 matrix over A, T, C, G,
  the probabilities for source T are not those of the three off-diagonal counts of row T,
  and changing only the diagonal count of row T (index 5) changes them.
\<close>

theorem off_diagonal_counterexample:
  "map_of (subst_matrix_to_choices example_model example_row) CHR ''T''
     \<noteq> Some (''ACG'', row_major_probabilities 1 example_row) \<and>
   map_of (subst_matrix_to_choices example_model (example_row[5 := 7])) CHR ''T''
     \<noteq> map_of (subst_matrix_to_choices example_model example_row) CHR ''T''"
  unfolding row_major_example
  by (simp add: subst_matrix_to_choices_def Let_def slice_def example_row_def np_div_def)

subsection \<open>Rows without substitutions\<close>

lemma np_random_choice_nan:
  "alts \<noteq> [] \<Longrightarrow> np_random_choice alts [NaN, NaN, NaN] w = (Inl ValueError, w)"
  by (simp add: np_random_choice_def)

lemma kde_mut_loop_iteration:
  assumes "deref w m = Some (MutableSeq letters)" and "position < length letters"
    and "position < length matrix"
    and "map_of (subst_matrix_to_choices self (matrix ! position)) (letters ! position)
           = Some (alts, probs)"
  shows "kde_mut_loop self (Some matrix) (qual # rest) position m w =
           (if phred_to_prob_binary64 (libm_pow w) (of_int qual) < fst (random_random w) then
              (case np_random_choice alts probs (snd (random_random w)) of
                 (Inl e, w2) \<Rightarrow> (Inl e, w2)
               | (Inr c, w2) \<Rightarrow>
                   kde_mut_loop self (Some matrix) rest (position + 1) m
                     (store m (MutableSeq (letters[position := c])) w2))
            else kde_mut_loop self (Some matrix) rest (position + 1) m (snd (random_random w)))"
proof -
  obtain u w1 where r: "random_random w = (u, w1)" by (cases "random_random w")
  show ?thesis using assms by (simp add: r Let_def)
qed

text \<open>
  C4 (amended). When the three counts the model reads for a source base are all zero,
  \<open>subst_matrix_to_choices\<close> divides by zero without a guard: numpy gives \<open>nan\<close> for each
  of the three probabilities and raises nothing. At a position holding that base,
  \<open>mut_sequence\<close> then fails with the ValueError of \<^verbatim>\<open>np.random.choice\<close> when the draw
  exceeds the float \<^verbatim>\<open>phred_to_prob(qual)\<close> returns, and goes on to the next position when
  it does not.
\<close>

theorem degenerate_row_behaviour:
  assumes "deref w m = Some (MutableSeq letters)" and "position < length letters"
    and "position < length matrix" and "length (matrix ! position) = 16"
    and "(letters ! position, i) \<in> set [(CHR ''A'', 1), (CHR ''T'', 5), (CHR ''C'', 9), (CHR ''G'', 13)]"
    and "matrix ! position ! i = 0" and "matrix ! position ! (i + 1) = 0"
    and "matrix ! position ! (i + 2) = 0"
  shows "(\<exists>alts. map_of (subst_matrix_to_choices self (matrix ! position)) (letters ! position)
            = Some (alts, [NaN, NaN, NaN])) \<and>
         (phred_to_prob_binary64 (libm_pow w) (of_int qual) < fst (random_random w) \<longrightarrow>
            kde_mut_loop self (Some matrix) (qual # rest) position m w
              = (Inl ValueError, snd (random_random w))) \<and>
         (\<not> phred_to_prob_binary64 (libm_pow w) (of_int qual) < fst (random_random w) \<longrightarrow>
            kde_mut_loop self (Some matrix) (qual # rest) position m w
              = kde_mut_loop self (Some matrix) rest (position + 1) m (snd (random_random w)))"
proof -
  let ?row = "matrix ! position"
  note sixteen = choices_of_sixteen [OF assms(4), of self]
  from assms(5) consider
    (A) "letters ! position = CHR ''A''" "i = 1" | (T) "letters ! position = CHR ''T''" "i = 5"
    | (C) "letters ! position = CHR ''C''" "i = 9" | (G) "letters ! position = CHR ''G''" "i = 13"
    by auto
  then have "\<exists>alts. alts \<noteq> [] \<and>
      map_of (subst_matrix_to_choices self ?row) (letters ! position) = Some (alts, [NaN, NaN, NaN])"
  proof cases
    case A
    have "?row ! 1 = 0" "?row ! 2 = 0" "?row ! 3 = 0"
      using assms(6-8) unfolding A(2) by (simp_all add: numeral_2_eq_2 numeral_3_eq_3)
    then show ?thesis using A(1) by (simp add: sixteen np_div_def)
  next
    case T
    then show ?thesis using assms(6-8) by (simp add: sixteen np_div_def)
  next
    case C
    then show ?thesis using assms(6-8) by (simp add: sixteen np_div_def)
  next
    case G
    then show ?thesis using assms(6-8) by (simp add: sixteen np_div_def)
  qed
  then obtain alts where alts: "alts \<noteq> []"
    "map_of (subst_matrix_to_choices self ?row) (letters ! position) = Some (alts, [NaN, NaN, NaN])"
    by blast
  show ?thesis
    unfolding kde_mut_loop_iteration [OF assms(1-3) alts(2)] np_random_choice_nan [OF alts(1)]
    using alts(2) by simp
qed

lemma copied_world_facts:
  "deref copied_world 2 = Some (MutableSeq ''ACGT'')"
  "phred_to_prob_binary64 (libm_pow copied_world) (of_int 0) < fst (random_random copied_world)"
  "length (heap example_world) = 2"
proof -
  have "libm_pow copied_world 10 0 = 1"
    by (simp add: copied_world_def example_world_def binary64_one)
  from phred_to_prob_binary64_0 [where pow = "libm_pow copied_world", OF this]
  show "phred_to_prob_binary64 (libm_pow copied_world) (of_int 0) < fst (random_random copied_world)"
    by (simp add: copied_world_def random_random_def unit_float_def example_world_def)
qed (simp_all add: copied_world_def example_world_def deref_def)

lemma zero_row_facts:
  "length (replicate 4 zero_row ! 0) = 16"
  "replicate 4 zero_row ! 0 ! 1 = 0"
  "replicate 4 zero_row ! 0 ! (1 + 1) = 0"
  "replicate 4 zero_row ! 0 ! (1 + 2) = 0"
  by (simp_all add: zero_row_def)

lemma boundary_world_facts:
  "deref boundary_copied_world 2 = Some (MutableSeq ''A'')"
  "fst (random_random boundary_copied_world)
     = phred_to_prob_binary64 (libm_pow boundary_copied_world) (of_int 10)"
proof -
  have l: "libm_pow boundary_copied_world = (\<lambda>b x. binary64 (b powr x))"
    by (simp add: boundary_copied_world_def boundary_world_def example_world_def)
  have d: "fst (random_random boundary_copied_world) = 8106479329266893 / 2 ^ 53"
    by (simp add: random_random_def unit_float_def boundary_copied_world_def boundary_world_def
        example_world_def)
  show "fst (random_random boundary_copied_world)
     = phred_to_prob_binary64 (libm_pow boundary_copied_world) (of_int 10)"
    unfolding l d using phred_to_prob_binary64_10 by simp
qed (simp add: boundary_copied_world_def boundary_world_def example_world_def deref_def)

theorem degenerate_row_behaviour_witness:
  "(\<exists>alts. map_of (subst_matrix_to_choices degenerate_model (replicate 4 zero_row ! 0)) (''ACGT'' ! 0)
      = Some (alts, [NaN, NaN, NaN])) \<and>
   kde_mut_loop degenerate_model (Some (replicate 4 zero_row)) [0, 0, 0, 0] 0 2 copied_world
     = (Inl ValueError, snd (random_random copied_world)) \<and>
   kde_mut_loop degenerate_model (Some (replicate 4 zero_row)) [10] 0 2 boundary_copied_world
     = (Inr (), snd (random_random boundary_copied_world))"
proof -
  have p: "0 < length ''ACGT''" "0 < length (replicate 4 zero_row)" by simp_all
  have b: "(''ACGT'' ! 0, 1) \<in> set [(CHR ''A'', 1), (CHR ''T'', 5), (CHR ''C'', 9), (CHR ''G'', 13 :: nat)]"
    by simp
  have p': "0 < length ''A''" by simp
  have b': "(''A'' ! 0, 1) \<in> set [(CHR ''A'', 1), (CHR ''T'', 5), (CHR ''C'', 9), (CHR ''G'', 13 :: nat)]"
    by simp
  have n: "\<not> phred_to_prob_binary64 (libm_pow boundary_copied_world) (of_int 10)
      < fst (random_random boundary_copied_world)"
    unfolding boundary_world_facts(2) by simp
  note raises = degenerate_row_behaviour [OF copied_world_facts(1) p zero_row_facts(1) b
      zero_row_facts(2-4), of degenerate_model 0 "[0, 0, 0]"]
  note goes_on = degenerate_row_behaviour [OF boundary_world_facts(1) p' p(2) zero_row_facts(1) b'
      zero_row_facts(2-4), of degenerate_model 10 "[]"]
  from goes_on n
  have "kde_mut_loop degenerate_model (Some (replicate 4 zero_row)) [10] 0 2 boundary_copied_world
      = kde_mut_loop degenerate_model (Some (replicate 4 zero_row)) [] (0 + 1) 2
          (snd (random_random boundary_copied_world))"
    by blast
  then have "kde_mut_loop degenerate_model (Some (replicate 4 zero_row)) [10] 0 2
      boundary_copied_world = (Inr (), snd (random_random boundary_copied_world))"
    by simp
  with raises copied_world_facts(2) show ?thesis by blast
qed

text \<open>
  C4 as stated fails: on a profile whose counts are all zero the probabilities for source A
  are \<open>nan\<close>, and \<open>mut_sequence\<close> ends in numpy's ValueError.
\<close>

theorem degenerate_profile_counterexample:
  "map_of (subst_matrix_to_choices degenerate_model zero_row) CHR ''A''
     = Some (''TCG'', [NaN, NaN, NaN]) \<and>
   fst (kde_mut_sequence degenerate_model example_record ''forward'' example_world)
     = Inl ValueError"
proof -
  have c: "map_of (subst_matrix_to_choices degenerate_model zero_row) CHR ''A''
      = Some (''TCG'', [NaN, NaN, NaN])"
    by (simp add: subst_matrix_to_choices_def Let_def slice_def zero_row_def np_div_def)
  have q: "map_of [(''phred_quality'', [0, 0, 0, 0 :: int])] ''phred_quality'' = Some [0, 0, 0, 0]"
    by simp
  have o: "''forward'' = ''forward'' \<or> ''forward'' = ''reverse''" by simp
  have m: "(if ''forward'' = ''forward'' then subst_matrix_forward degenerate_model
            else subst_matrix_reverse degenerate_model) = replicate 4 zero_row"
    by (simp add: degenerate_model_def KernelDensityErrorModel_init_def)
  have c': "map_of (subst_matrix_to_choices degenerate_model (replicate 4 zero_row ! 0)) (''ACGT'' ! 0)
      = Some (''TCG'', [NaN, NaN, NaN])"
    using c by simp
  have p: "0 < length ''ACGT''" "0 < length (replicate 4 zero_row)" by simp_all
  have "kde_mut_loop degenerate_model (Some (replicate 4 zero_row)) [0, 0, 0, 0] 0 2 copied_world
      = (Inl ValueError, snd (random_random copied_world))"
    unfolding kde_mut_loop_iteration [OF copied_world_facts(1) p c']
    using copied_world_facts(2) by (simp add: np_random_choice_nan)
  then have "kde_mut_sequence degenerate_model example_record ''forward'' example_world
      = (Inl ValueError, snd (random_random copied_world))"
    unfolding kde_mut_sequence_unfold [OF example_world_facts(1) example_world_facts(2) q o] m
      copied_world_facts(3) copied_world_def [symmetric]
    by (simp add: and_then_Inl)
  then show ?thesis using c by simp
qed

section \<open>Orientations other than forward and reverse\<close>

text \<open>
  C3 fails on the code. With the orientation \<open>sideways\<close>, \<open>introduce_error_scores\<close> prints
  a message and returns the record, raising nothing; \<open>mut_sequence\<close> prints a message and goes
  on with its local \<open>subst_matrix\<close> unbound, so it raises UnboundLocalError at the first
  position of a sequence, and returns an empty sequence unchanged.
\<close>

theorem bad_orientation_continues:
  "fst (kde_introduce_error_scores example_model example_record ''sideways'' example_world)
     = Inr example_record \<and>
   stdout (snd (kde_introduce_error_scores example_model example_record ''sideways'' example_world))
     = [''bad orientation. Fatal''] \<and>
   fst (kde_mut_sequence example_model example_record ''sideways'' example_world)
     = Inl UnboundLocalError \<and>
   stdout (snd (kde_mut_sequence example_model example_record ''sideways'' example_world))
     = [''this is bad''] \<and>
   fst (kde_mut_sequence example_model example_record ''sideways'' empty_world) = Inr 3"
  by (simp add: kde_introduce_error_scores_def kde_mut_sequence_def py_print_def and_then_def
      tomutable_def toseq_def alloc_def deref_def annotations_getitem_def
      example_world_def empty_world_def example_record_def)

end
